theory Spec2Isabelle
  imports Complex_Main
begin

section \<open>Strings and numbers of the host language\<close>

text \<open>
  A JavaScript string is a sequence of code units. The model uses \<open>string\<close>, one
  \<open>char\<close> per code unit, and so covers the texts whose code units lie in the range
  0..255 (ASCII and Latin-1). \<open>length\<close>, \<open>take\<close> and \<open>@\<close> are then \<open>.length\<close>,
  \<open>.substring(0, n)\<close> and \<open>+\<close>. Coordinates and sizes are \<open>real\<close>, with exact arithmetic;
  the numbers of the code are doubles, whose comparisons are those of the reals and whose
  sums and differences are exact on whole numbers of pixels. Timestamps are \<open>int\<close>.
\<close>

definition is_ws :: "char \<Rightarrow> bool" where
  \<comment> \<open>the white space and line terminators that \<open>trim()\<close> strips and \<open>\s\<close> matches, in range\<close>
  "is_ws c \<longleftrightarrow> c \<in> {CHR 0x09, CHR 0x0A, CHR 0x0B, CHR 0x0C, CHR 0x0D, CHR 0x20, CHR 0xA0}"

definition trim :: "string \<Rightarrow> string" where
  "trim s = rev (dropWhile is_ws (rev (dropWhile is_ws s)))"

function collapse_ws :: "string \<Rightarrow> string" where
  \<comment> \<open>\<open>s.replace(/\s+/g, " ")\<close>: every maximal run of white space becomes one space\<close>
  "collapse_ws [] = []"
| "collapse_ws (c # cs) =
     (if is_ws c then CHR '' '' # collapse_ws (dropWhile is_ws cs) else c # collapse_ws cs)"
  by pat_completeness auto
termination
  by (relation "measure length") (auto simp: le_imp_less_Suc length_dropWhile_le)

definition lower_char :: "char \<Rightarrow> char" where
  "lower_char c =
     (let n = (of_char c :: nat)
      in if (65 \<le> n \<and> n \<le> 90) \<or> (192 \<le> n \<and> n \<le> 222 \<and> n \<noteq> 215)
         then char_of (n + 32) else c)"

definition toLowerCase :: "string \<Rightarrow> string" where
  "toLowerCase s = map lower_char s"

definition startsWith :: "string \<Rightarrow> string \<Rightarrow> bool" where
  "startsWith s p \<longleftrightarrow> take (length p) s = p"

fun join :: "string \<Rightarrow> string list \<Rightarrow> string" where
  \<comment> \<open>\<open>parts.join(sep)\<close>\<close>
  "join sep [] = []"
| "join sep [p] = p"
| "join sep (p # q # ps) = p @ sep @ join sep (q # ps)"

definition digit_char :: "nat \<Rightarrow> char" where
  "digit_char d = char_of (48 + d)"

function string_of_nat :: "nat \<Rightarrow> string" where
  \<comment> \<open>the decimal numeral a template literal prints for a non-negative integer\<close>
  "string_of_nat n =
     (if n < 10 then [digit_char n] else string_of_nat (n div 10) @ [digit_char (n mod 10)])"
  by pat_completeness auto
termination
  by (relation "measure id") auto

declare string_of_nat.simps [simp del]

section \<open>Constants\<close>

definition PADDING :: real where
  "PADDING = 10"

definition MAX_QUERY_LENGTH :: nat where
  "MAX_QUERY_LENGTH = 70"

definition TRUNCATE_SUFFIX :: string where
  "TRUNCATE_SUFFIX = ''...''"

section \<open>PositionManager\<close>

record viewport =
  innerWidth :: real
  innerHeight :: real

record position =
  pos_x :: real
  pos_y :: real

definition constrainToViewport :: "viewport \<Rightarrow> real \<Rightarrow> real \<Rightarrow> real \<Rightarrow> real \<Rightarrow> position" where
  "constrainToViewport window x y elementWidth elementHeight =
     (let padding = PADDING;
          minX = padding;
          minY = padding;
          maxX = innerWidth window - elementWidth - padding;
          maxY = innerHeight window - elementHeight - padding
      in \<lparr>pos_x = max minX (min x maxX), pos_y = max minY (min y maxY)\<rparr>)"

section \<open>Queries and list rows\<close>

text \<open>
  An entry of the query sequence is either a bare string or an object with a text and
  the page element it was read from; the code tests \<open>typeof item === "string"\<close>.
\<close>

datatype 'e question = QString string | QObject string 'e

fun questionText :: "'e question \<Rightarrow> string" where
  "questionText (QString s) = s"
| "questionText (QObject t e) = t"

fun questionElement :: "'e question \<Rightarrow> 'e option" where
  "questionElement (QString s) = None"
| "questionElement (QObject t e) = Some e"

record list_item =
  data_toc_num :: nat
  link_href :: string
  link_data_num :: nat
  link_textContent :: string
  link_title :: string

definition shortText :: "string \<Rightarrow> string" where
  "shortText questionText' =
     (if length questionText' > MAX_QUERY_LENGTH
      then take (MAX_QUERY_LENGTH - 3) questionText' @ TRUNCATE_SUFFIX
      else questionText')"

definition questionId :: "nat \<Rightarrow> string" where
  "questionId index = ''toc-question-'' @ string_of_nat index"

definition make_list_item :: "nat \<Rightarrow> 'e question \<Rightarrow> list_item" where
  "make_list_item index item =
     \<lparr>data_toc_num = index + 1,
      link_href = ''#'' @ questionId index,
      link_data_num = index + 1,
      link_textContent = shortText (questionText item),
      link_title = questionText item\<rparr>"

definition populateTOCList :: "'e question list \<Rightarrow> list_item list" where
  "populateTOCList questions = map (\<lambda>(index, item). make_list_item index item) (enumerate 0 questions)"

section \<open>Site configuration\<close>

text \<open>
  The static part of a site adapter. Its two behaviours, \<open>getQueries\<close> and
  \<open>setupMonitor\<close>, read the host page; the user interface below receives the sequence
  that \<open>getQueries()\<close> returns as an argument.
\<close>

record delays =
  pageLoad :: int
  promptSubmission :: int
  chatChange :: int
  stateCheck :: int

record site_config =
  name :: string
  host :: string
  themeClass :: string
  storageKey :: string
  delays :: delays

definition chatgpt :: site_config where
  "chatgpt = \<lparr>name = ''ChatGPT'', host = ''chatgpt.com'', themeClass = ''theme-chatgpt'',
     storageKey = ''chatgpt-toc-position'',
     delays = \<lparr>pageLoad = 2000, promptSubmission = 500, chatChange = 1500, stateCheck = 5000\<rparr>\<rparr>"

definition gemini :: site_config where
  "gemini = \<lparr>name = ''Gemini'', host = ''gemini.google.com'', themeClass = ''theme-gemini'',
     storageKey = ''gemini-toc-position'',
     delays = \<lparr>pageLoad = 1500, promptSubmission = 500, chatChange = 1500, stateCheck = 5000\<rparr>\<rparr>"

definition perplexity :: site_config where
  "perplexity = \<lparr>name = ''Perplexity'', host = ''perplexity.ai'', themeClass = ''theme-perplexity'',
     storageKey = ''perplexity-toc-position'',
     delays = \<lparr>pageLoad = 2000, promptSubmission = 200, chatChange = 1500, stateCheck = 5000\<rparr>\<rparr>"

definition claude :: site_config where
  "claude = \<lparr>name = ''Claude'', host = ''claude.ai'', themeClass = ''theme-claude'',
     storageKey = ''claude-toc-position'',
     delays = \<lparr>pageLoad = 2000, promptSubmission = 500, chatChange = 1500, stateCheck = 5000\<rparr>\<rparr>"

section \<open>The host page\<close>

text \<open>
  A node of the page is a text or an element with its class list and its children; the
  text content of an element is the text of its descendants in document order.
\<close>

datatype node = Text string | Element "string list" "node list"

fun textContent :: "node \<Rightarrow> string" where
  "textContent (Text s) = s"
| "textContent (Element classes children) = concat (map textContent children)"

fun classList_of :: "node \<Rightarrow> string list" where
  "classList_of (Text s) = []"
| "classList_of (Element classes children) = classes"

text \<open>
  An element handle, as a script holds it: the place of the element in the document (the
  child indices from the root), the element, and its previous element sibling. Two
  handles are the same element when their places are equal.
\<close>

datatype el = El "nat list" node "el option"

fun path :: "el \<Rightarrow> nat list" where
  "path (El p n prev) = p"

fun node_of :: "el \<Rightarrow> node" where
  "node_of (El p n prev) = n"

fun previousElementSibling :: "el \<Rightarrow> el option" where
  "previousElementSibling (El p n prev) = prev"

definition parentElement :: "el \<Rightarrow> nat list option" where
  \<comment> \<open>the place of the parent; the root has none\<close>
  "parentElement e = (if path e = [] then None else Some (butlast (path e)))"

definition contains_class :: "el \<Rightarrow> string \<Rightarrow> bool" where
  \<comment> \<open>\<open>e.classList.contains(c)\<close>\<close>
  "contains_class e c \<longleftrightarrow> c \<in> set (classList_of (node_of e))"

fun subtree_elements :: "nat list \<Rightarrow> el option \<Rightarrow> node \<Rightarrow> el list"
  and child_elements :: "nat list \<Rightarrow> nat \<Rightarrow> el option \<Rightarrow> node list \<Rightarrow> el list" where
  \<comment> \<open>the elements of a subtree in document order, the root of the subtree first\<close>
  "subtree_elements p prev (Text s) = []"
| "subtree_elements p prev (Element classes children) =
     El p (Element classes children) prev # child_elements p 0 None children"
| "child_elements p i prev [] = []"
| "child_elements p i prev (child # children) =
     subtree_elements (p @ [i]) prev child @
     child_elements p (Suc i)
       (case child of Text s \<Rightarrow> prev | Element cs ks \<Rightarrow> Some (El (p @ [i]) child prev))
       children"

definition matches :: "string list \<Rightarrow> el \<Rightarrow> bool" where
  \<comment> \<open>a selector list of class selectors, \<open>.a, .b\<close>, given by its class names\<close>
  "matches selector e \<longleftrightarrow> (\<exists>c \<in> set selector. contains_class e c)"

definition querySelectorAll :: "node \<Rightarrow> string list \<Rightarrow> el list" where
  \<comment> \<open>\<open>document.querySelectorAll\<close>, on the document given by its root element\<close>
  "querySelectorAll document selector = filter (matches selector) (subtree_elements [] None document)"

definition el_querySelectorAll :: "el \<Rightarrow> string list \<Rightarrow> el list" where
  \<comment> \<open>\<open>element.querySelectorAll\<close>: the descendants of the element, not the element itself\<close>
  "el_querySelectorAll e selector =
     filter (matches selector) (tl (subtree_elements (path e) (previousElementSibling e) (node_of e)))"

text \<open>
  The selectors of the other three adapters test tag names and attributes, which the
  tree above does not record. For them the page enters as the answers of
  \<open>document.querySelectorAll\<close>: for each selector the matching elements in document
  order. \<open>page_of\<close> makes such a page from a table; a selector not in it matches nothing.
\<close>

definition page_of :: "(string \<times> node list) list \<Rightarrow> string \<Rightarrow> node list" where
  "page_of answers selector = (case map_of answers selector of None \<Rightarrow> [] | Some found \<Rightarrow> found)"

section \<open>Site adapters: query extraction\<close>

subsection \<open>ChatGPT\<close>

definition chatgpt_userMessage :: string where
  \<open>chatgpt_userMessage = ''div[data-message-author-role="user"]''\<close>

definition chatgpt_getQueries :: "(string \<Rightarrow> node list) \<Rightarrow> node question list" where
  "chatgpt_getQueries document_querySelectorAll =
     (let queryElements = document_querySelectorAll chatgpt_userMessage
      in concat (map (\<lambda>el. let text' = trim (textContent el)
                             in if text' \<noteq> [] then [QObject text' el] else [])
                  queryElements))"

subsection \<open>Gemini\<close>

definition gemini_userMessage :: "string list" where
  \<comment> \<open>\<open>.query-text-line, .user-message, .query\<close>\<close>
  "gemini_userMessage = [''query-text-line'', ''user-message'', ''query'']"

definition normalize :: "string \<Rightarrow> string" where
  \<comment> \<open>\<open>s.replace(/\s+/g, " ").trim()\<close>\<close>
  "normalize s = trim (collapse_ws s)"

definition container_group :: "el \<Rightarrow> el question list" where
  \<comment> \<open>the body of the loop over the containers\<close>
  "container_group container =
     (let lineNodes = el_querySelectorAll container [''query-text-line''];
          text' = (if length lineNodes \<noteq> 0
                   then normalize (join '' '' (map (\<lambda>n. textContent (node_of n)) lineNodes))
                   else normalize (textContent (node_of container)))
      in if text' \<noteq> [] then [QObject text' container] else [])"

definition after_line :: "el \<Rightarrow> bool" where
  \<comment> \<open>the test before \<open>continue\<close>: the previous element sibling is a line under the same parent\<close>
  "after_line e =
     (case previousElementSibling e of
        None \<Rightarrow> False
      | Some prev \<Rightarrow> parentElement prev = parentElement e \<and> contains_class prev ''query-text-line'')"

definition same_run :: "el \<Rightarrow> el \<Rightarrow> bool" where
  \<comment> \<open>the condition of the inner \<open>while\<close> on \<open>nodes[j]\<close>\<close>
  "same_run e n \<longleftrightarrow> contains_class n ''query-text-line'' \<and> parentElement n = parentElement e"

function line_groups :: "el list \<Rightarrow> el question list" where
  \<comment> \<open>the loop over \<open>nodes\<close> from index \<open>i\<close> on; the argument is \<open>nodes.slice(i)\<close>\<close>
  "line_groups [] = []"
| "line_groups (e # nodes) =
     (let isLine = contains_class e ''query-text-line''
      in if isLine then
           if after_line e then line_groups nodes
           else
             let parts = textContent (node_of e) #
                           map (\<lambda>n. textContent (node_of n)) (takeWhile (same_run e) nodes);
                 text' = normalize (join '' '' parts)
             in (if text' \<noteq> [] then [QObject text' e] else []) @
                line_groups (dropWhile (same_run e) nodes)
         else
           let text' = normalize (textContent (node_of e))
           in (if text' \<noteq> [] then [QObject text' e] else []) @ line_groups nodes)"
  by pat_completeness auto
termination
  by (relation "measure length") (auto simp: le_imp_less_Suc length_dropWhile_le)

definition gemini_groups :: "node \<Rightarrow> el question list" where
  "gemini_groups document =
     (let containerSelector = [''user-message'', ''query''];
          containers = querySelectorAll document containerSelector
      in if length containers \<noteq> 0
         then concat (map container_group containers)
         else line_groups (querySelectorAll document gemini_userMessage))"

fun gemini_filter :: "string set \<Rightarrow> 'e question list \<Rightarrow> 'e question list" where
  \<comment> \<open>the final \<open>filter\<close> with its set \<open>seen\<close>\<close>
  "gemini_filter seen [] = []"
| "gemini_filter seen (g # groups) =
     (let lower = toLowerCase (questionText g)
      in if startsWith lower ''hello,'' then gemini_filter seen groups
         else if lower \<in> seen then gemini_filter seen groups
         else g # gemini_filter (insert lower seen) groups)"

definition gemini_getQueries :: "node \<Rightarrow> el question list" where
  "gemini_getQueries document = gemini_filter {} (gemini_groups document)"

subsection \<open>Perplexity\<close>

definition perplexity_primary :: string where
  "perplexity_primary =
     ''h1.group'' @ [CHR 0x5C] @ ''/query, div.group'' @ [CHR 0x5C] @
     ''/query, .flex.flex-col.gap-1.pb-2''"

definition perplexity_secondary :: string where
  \<open>perplexity_secondary = ''[class*="pb-2"] .font-sans.text-textMain''\<close>

definition trimmed_queries :: "node list \<Rightarrow> node question list" where
  \<comment> \<open>\<open>Array.from(elements).map(el => ({text: el.textContent.trim(), element: el})).filter(q => q.text)\<close>\<close>
  "trimmed_queries elements =
     filter (\<lambda>q. questionText q \<noteq> []) (map (\<lambda>el. QObject (trim (textContent el)) el) elements)"

definition perplexity_getQueries :: "(string \<Rightarrow> node list) \<Rightarrow> node question list" where
  "perplexity_getQueries document_querySelectorAll =
     (let queryElements = document_querySelectorAll perplexity_primary;
          queries = trimmed_queries queryElements
      in if length queries = 0
         then let queryElements = document_querySelectorAll perplexity_secondary
              in trimmed_queries queryElements
         else queries)"

subsection \<open>Claude\<close>

definition claude_selectors :: "string list" where
  \<open>claude_selectors =
     [''[data-testid="user-message"]'',
      ''.human-message'',
      ''[class*="human"] [class*="message"]'',
      ''.prose[class*="human"]'']\<close>

fun claude_scan ::
  "(string \<Rightarrow> node list) \<Rightarrow> string list \<Rightarrow> node question list \<Rightarrow> node question list" where
  \<comment> \<open>the loop over the selectors, with the value of \<open>queries\<close> so far\<close>
  "claude_scan document_querySelectorAll [] queries = queries"
| "claude_scan document_querySelectorAll (selector # selectors) queries =
     (let elements = document_querySelectorAll selector
      in if length elements > 0 then
           let queries' = filter (\<lambda>q. questionText q \<noteq> [] \<and> length (questionText q) > 0)
                            (map (\<lambda>el. QObject (trim (textContent el)) el) elements)
           in if length queries' > 0 then queries'
              else claude_scan document_querySelectorAll selectors queries'
         else claude_scan document_querySelectorAll selectors queries)"

fun claude_filter :: "string set \<Rightarrow> 'e question list \<Rightarrow> 'e question list" where
  \<comment> \<open>the final \<open>filter\<close> with its set \<open>seen\<close>\<close>
  "claude_filter seen [] = []"
| "claude_filter seen (q # queries) =
     (let key = take 100 (questionText q)
      in if key \<in> seen then claude_filter seen queries
         else q # claude_filter (insert key seen) queries)"

definition claude_getQueries :: "(string \<Rightarrow> node list) \<Rightarrow> node question list" where
  "claude_getQueries document_querySelectorAll =
     claude_filter {} (claude_scan document_querySelectorAll claude_selectors [])"

text \<open>
  A text in which every white space character is a single space between two other
  characters or at an end; the texts that \<open>replace(/\s+/g, " ")\<close> leaves as they are.
\<close>

fun single_spaced :: "string \<Rightarrow> bool" where
  "single_spaced [] = True"
| "single_spaced [c] = (is_ws c \<longrightarrow> c = CHR '' '')"
| "single_spaced (c # d # cs) = ((is_ws c \<longrightarrow> c = CHR '' '' \<and> \<not> is_ws d) \<and> single_spaced (d # cs))"

text \<open>
  A text that is not empty, begins and ends with a character that is not white space,
  and that \<open>trim()\<close> leaves as it is.
\<close>

definition trimmed :: "string \<Rightarrow> bool" where
  "trimmed t \<longleftrightarrow> t \<noteq> [] \<and> \<not> is_ws (hd t) \<and> \<not> is_ws (last t) \<and> trim t = t"

abbreviation key100 :: "'e question \<Rightarrow> string" where
  "key100 q \<equiv> take 100 (questionText q)"

subsection \<open>The page as a tree: containers, line nodes and runs of lines\<close>

text \<open>
  What the Gemini adapter is expected to extract, told on the tree of the page alone,
  with no element handles and no loop over a node list. The elements of a subtree are
  listed in document order. A container is an element of class \<open>user-message\<close> or
  \<open>query\<close>, a line node an element of class \<open>query-text-line\<close>. The lines of a page
  are flat when no line node lies inside another.
\<close>

fun elements_of :: "node \<Rightarrow> node list" where
  "elements_of (Text s) = []"
| "elements_of (Element classes children) = Element classes children # concat (map elements_of children)"

definition is_line :: "node \<Rightarrow> bool" where
  "is_line n \<longleftrightarrow> ''query-text-line'' \<in> set (classList_of n)"

definition is_container :: "node \<Rightarrow> bool" where
  "is_container n \<longleftrightarrow> ''user-message'' \<in> set (classList_of n) \<or> ''query'' \<in> set (classList_of n)"

definition containers :: "node \<Rightarrow> node list" where
  "containers document = filter is_container (elements_of document)"

definition lines_within :: "node \<Rightarrow> node list" where
  \<comment> \<open>the line nodes of a subtree, its root included\<close>
  "lines_within n = filter is_line (elements_of n)"

definition lines_below :: "node \<Rightarrow> node list" where
  \<comment> \<open>the line nodes among the descendants of an element\<close>
  "lines_below n = filter is_line (tl (elements_of n))"

definition flat_lines :: "node \<Rightarrow> bool" where
  "flat_lines document = list_all (\<lambda>line. lines_below line = []) (lines_within document)"

definition merged :: "string list list \<Rightarrow> string list" where
  \<comment> \<open>each run of texts joined with single spaces and normalized; empty results dropped\<close>
  "merged runs = filter (\<lambda>t. t \<noteq> []) (map (\<lambda>run. normalize (join '' '' run)) runs)"

definition container_text :: "node \<Rightarrow> string" where
  \<comment> \<open>all the lines inside the container merged, or the whole text when it holds no line\<close>
  "container_text container =
     (if lines_below container \<noteq> []
      then normalize (join '' '' (map textContent (lines_below container)))
      else normalize (textContent container))"

text \<open>
  The runs of lines of a page without containers. Under one parent, the line nodes among
  its children form a run as long as they follow one another among the line nodes of the
  page: a text or an element without lines between two of them does not end the run, an
  element that holds lines does, and its own runs come next.
\<close>

fun line_runs :: "node \<Rightarrow> string list list"
  and child_runs :: "string list \<Rightarrow> node list \<Rightarrow> string list list" where
  "line_runs (Text s) = []"
| "line_runs (Element classes children) = child_runs [] children"
| "child_runs run [] = (if run = [] then [] else [run])"
| "child_runs run (child # children) =
     (if is_line child then child_runs (run @ [textContent child]) children
      else if lines_within child = [] then child_runs run children
      else (if run = [] then [] else [run]) @ line_runs child @ child_runs [] children)"

definition page_runs :: "node \<Rightarrow> string list list" where
  "page_runs document = (if is_line document then [[textContent document]] else line_runs document)"

function keep_first :: "string list \<Rightarrow> string list" where
  \<comment> \<open>of the texts that are equal without regard to case, the first only\<close>
  "keep_first [] = []"
| "keep_first (t # ts) = t # keep_first (filter (\<lambda>u. toLowerCase u \<noteq> toLowerCase t) ts)"
  by pat_completeness auto
termination
  by (relation "measure length") (auto simp: le_imp_less_Suc)

text \<open>
  Places in the tree, for the loop over the node list: the previous element sibling is
  a line node; the parent of an element is not the element at \<open>p\<close> nor inside it.
\<close>

definition prev_line :: "el option \<Rightarrow> bool" where
  "prev_line prev = (case prev of None \<Rightarrow> False | Some e \<Rightarrow> contains_class e ''query-text-line'')"

definition outside :: "nat list \<Rightarrow> el \<Rightarrow> bool" where
  "outside p e = (case parentElement e of None \<Rightarrow> True | Some q \<Rightarrow> take (length p) q \<noteq> p)"

abbreviation line_handles :: "el list \<Rightarrow> el list" where
  "line_handles es \<equiv> filter (\<lambda>e. contains_class e ''query-text-line'') es"

abbreviation handle_text :: "el \<Rightarrow> string" where
  "handle_text e \<equiv> textContent (node_of e)"

abbreviation lowerText :: "'e question \<Rightarrow> string" where
  "lowerText q \<equiv> toLowerCase (questionText q)"

abbreviation greeting :: "'e question \<Rightarrow> bool" where
  "greeting q \<equiv> startsWith (toLowerCase (questionText q)) ''hello,''"

section \<open>The panel and its lifecycle\<close>

text \<open>
  The panel that \<open>buildTOCStructure\<close> makes: its id, its classes, the list rows and the
  text of the count in the footer. The header and the search box carry no data of the
  queries and are left out.
\<close>

record toc_container =
  toc_id :: string
  classList :: "string list"
  tocList :: "list_item list"
  tocCount :: string

definition TOC_CONTAINER :: string where
  "TOC_CONTAINER = ''toc-extension''"

definition COLLAPSED :: string where
  "COLLAPSED = ''collapsed''"

definition buildTOCStructure :: "site_config \<Rightarrow> 'e question list \<Rightarrow> toc_container" where
  "buildTOCStructure config questions =
     \<lparr>toc_id = TOC_CONTAINER,
      classList = [themeClass config],
      tocList = populateTOCList questions,
      tocCount = string_of_nat (length questions) @ '' queries''\<rparr>"

text \<open>
  The state of the page that the \<open>UI\<close> object reads and writes: its own two fields, the
  elements of the document whose id is the panel's (in document order; \<open>getElementById\<close>
  finds the first), the collapsed flag in the local storage, the pending timers of the
  user interface (handle, due time and callback), the number of timers made so far, and
  the console. The user interface sets timers for two callbacks: a call of \<open>createTOC\<close>
  (set by \<open>debouncedCreateTOC\<close> and by the handlers of a prompt submission) and the initial
  create of \<open>delayedCreateTOC\<close>, which writes a line to the console first. A timer of the
  monitor that calls \<open>onUpdate\<close> is, at the time it fires, a request.
\<close>

datatype callback = CreateTOC | InitialCreate

record ui =
  createTimer :: "nat option"
  lastCreateTime :: int
  body :: "toc_container list"
  collapsedState :: "bool option"
  timers :: "(nat \<times> int \<times> callback) list"
  timerCount :: nat
  console :: "string list"

definition removeExistingTOC :: "ui \<Rightarrow> ui" where
  "removeExistingTOC s =
     (case body s of [] \<Rightarrow> s | existingTOC # others \<Rightarrow> s\<lparr>body := others\<rparr>)"

definition getCollapsedState :: "ui \<Rightarrow> bool" where
  "getCollapsedState s = (case collapsedState s of None \<Rightarrow> False | Some saved \<Rightarrow> saved)"

definition restoreCollapsedState :: "ui \<Rightarrow> toc_container \<Rightarrow> toc_container" where
  "restoreCollapsedState s tocContainer =
     (if getCollapsedState s \<and> COLLAPSED \<notin> set (classList tocContainer)
      then tocContainer\<lparr>classList := classList tocContainer @ [COLLAPSED]\<rparr>
      else tocContainer)"

definition skipping :: string where
  "skipping = ''[TOC] Skipping - too soon since last create''"

definition createTOC :: "site_config \<Rightarrow> int \<Rightarrow> 'e question list \<Rightarrow> ui \<Rightarrow> ui" where
  \<comment> \<open>\<open>now\<close> is \<open>Date.now()\<close>, \<open>questions\<close> is what \<open>config.getQueries()\<close> returns\<close>
  "createTOC config now questions s =
     (if now - lastCreateTime s < 1000
      then s\<lparr>console := console s @ [skipping]\<rparr>
      else
        let s1 = removeExistingTOC (s\<lparr>lastCreateTime := now\<rparr>)
        in if length questions = 0
           then s1\<lparr>console := console s1 @ [''[TOC] No questions found, not creating TOC'']\<rparr>
           else
             let tocContainer = restoreCollapsedState s1 (buildTOCStructure config questions)
             in s1\<lparr>body := body s1 @ [tocContainer],
                   console := console s1 @
                     [''[TOC] Created with '' @ string_of_nat (length questions) @ '' items'']\<rparr>)"

subsection \<open>Timers and the debounce\<close>

definition clearTimeout :: "nat \<Rightarrow> ui \<Rightarrow> ui" where
  "clearTimeout handle s = s\<lparr>timers := filter (\<lambda>(h, due, run). h \<noteq> handle) (timers s)\<rparr>"

definition setTimeout :: "callback \<Rightarrow> int \<Rightarrow> int \<Rightarrow> ui \<Rightarrow> nat \<times> ui" where
  \<comment> \<open>handles are positive and never reused\<close>
  "setTimeout run delay now s =
     (timerCount s + 1,
      s\<lparr>timers := timers s @ [(timerCount s + 1, now + delay, run)],
        timerCount := timerCount s + 1\<rparr>)"

definition delayedCreateTOC :: "site_config \<Rightarrow> int \<Rightarrow> ui \<Rightarrow> ui" where
  "delayedCreateTOC config now s = snd (setTimeout InitialCreate (pageLoad (delays config)) now s)"

definition clearPending :: "ui \<Rightarrow> ui" where
  \<comment> \<open>the first statement of \<open>debouncedCreateTOC\<close>: \<open>if (this.createTimer) clearTimeout(this.createTimer)\<close>\<close>
  "clearPending s =
     (case createTimer s of
        None \<Rightarrow> s
      | Some handle \<Rightarrow> if handle \<noteq> 0 then clearTimeout handle s else s)"

definition debouncedCreateTOC :: "int \<Rightarrow> ui \<Rightarrow> ui" where
  "debouncedCreateTOC now s =
     (let (handle, s2) = setTimeout CreateTOC 300 now (clearPending s)
      in s2\<lparr>createTimer := Some handle\<rparr>)"

definition handleDocumentClick :: "site_config \<Rightarrow> bool \<Rightarrow> int \<Rightarrow> ui \<Rightarrow> ui" where
  \<comment> \<open>\<open>onSendButton\<close>: the site has a selector for the send button and the click is inside a
      match; \<open>handleKeyDown\<close> sets the same timer for Enter in the prompt input\<close>
  "handleDocumentClick config onSendButton now s =
     (if onSendButton then snd (setTimeout CreateTOC (promptSubmission (delays config)) now s)
      else s)"

text \<open>
  The event loop up to time \<open>t\<close>: every pending timer that is due by then fires, in the
  order of the due times (first set first among equals), at its due time. \<open>page\<close> gives
  the query sequence the adapter extracts at a given time. A run of \<open>createTOC\<close> sets
  no timer, so the timers that fire are those pending at the start.
\<close>

definition due_time :: "nat \<times> int \<times> callback \<Rightarrow> int" where
  "due_time timer = fst (snd timer)"

definition fire :: "site_config \<Rightarrow> (int \<Rightarrow> 'e question list) \<Rightarrow> nat \<times> int \<times> callback \<Rightarrow> ui \<Rightarrow> ui" where
  "fire config page timer s =
     (case timer of (handle, due, run) \<Rightarrow>
        (case run of
           CreateTOC \<Rightarrow> createTOC config due (page due) s
         | InitialCreate \<Rightarrow>
             createTOC config due (page due)
               (s\<lparr>console := console s @ [''[TOC] Initial create for '' @ name config]\<rparr>)))"

definition advance :: "site_config \<Rightarrow> (int \<Rightarrow> 'e question list) \<Rightarrow> int \<Rightarrow> ui \<Rightarrow> ui" where
  "advance config page t s =
     foldl (\<lambda>s' timer. fire config page timer s')
       (s\<lparr>timers := filter (\<lambda>timer. \<not> due_time timer \<le> t) (timers s)\<rparr>)
       (sort_key due_time (filter (\<lambda>timer. due_time timer \<le> t) (timers s)))"

fun requests :: "site_config \<Rightarrow> (int \<Rightarrow> 'e question list) \<Rightarrow> int list \<Rightarrow> ui \<Rightarrow> ui" where
  \<comment> \<open>the monitor calls \<open>onUpdate\<close>, that is \<open>debouncedCreateTOC\<close>, at each of the given times\<close>
  "requests config page [] s = s"
| "requests config page (t # ts) s =
     requests config page ts (debouncedCreateTOC t (advance config page t s))"

definition initial_ui :: ui where
  \<comment> \<open>the fields as the constructor sets them before it calls \<open>init()\<close>, on a page with no
      panel, timer or console output\<close>
  "initial_ui = \<lparr>createTimer = None, lastCreateTime = 0, body = [], collapsedState = None,
     timers = [], timerCount = 0, console = []\<rparr>"

definition init :: "site_config \<Rightarrow> int \<Rightarrow> ui" where
  \<comment> \<open>the user interface once constructed at time \<open>now\<close>: \<open>init()\<close> registers the listeners and
      the monitor and ends with \<open>delayedCreateTOC()\<close>, so the initial create is pending\<close>
  "init config now = delayedCreateTOC config now initial_ui"

definition still_page :: "'e question list \<Rightarrow> int \<Rightarrow> 'e question list" where
  \<comment> \<open>a page whose queries do not change over time\<close>
  "still_page questions t = questions"

definition rebuilds :: "ui \<Rightarrow> nat" where
  \<comment> \<open>the runs of \<open>createTOC\<close> that the console shows went past the cooldown check: every
      run of \<open>createTOC\<close> writes one line, and the only other line is that of the initial create\<close>
  "rebuilds s =
     length (filter (\<lambda>message. message \<noteq> skipping \<and> \<not> startsWith message ''[TOC] Initial create for '')
       (console s))"

fun gaps_below :: "int \<Rightarrow> int list \<Rightarrow> bool" where
  \<comment> \<open>each time is at or after the one before it and less than \<open>d\<close> after it\<close>
  "gaps_below d [] = True"
| "gaps_below d [t] = True"
| "gaps_below d (t # u # ts) = (t \<le> u \<and> u < t + d \<and> gaps_below d (u # ts))"

text \<open>
  The same passing of time with no request made: the timers fire at the given moments and,
  at the first of them, the debounce timer that may still be pending is cleared. This is
  what a burst of requests is compared with.
\<close>

fun waits :: "site_config \<Rightarrow> (int \<Rightarrow> 'e question list) \<Rightarrow> int list \<Rightarrow> ui \<Rightarrow> ui" where
  "waits config page [] s = s"
| "waits config page (t # ts) s = waits config page ts (advance config page t s)"

fun without_requests :: "site_config \<Rightarrow> (int \<Rightarrow> 'e question list) \<Rightarrow> int list \<Rightarrow> ui \<Rightarrow> ui" where
  "without_requests config page [] s = s"
| "without_requests config page (t # ts) s =
     waits config page ts (clearPending (advance config page t s))"

definition issued :: "nat \<Rightarrow> ui \<Rightarrow> ui" where
  \<comment> \<open>\<open>handle\<close> is the last handle given out and the one that \<open>createTimer\<close> holds\<close>
  "issued handle s = s\<lparr>timerCount := handle, createTimer := Some handle\<rparr>"

definition pending_debounce :: "nat \<Rightarrow> int \<Rightarrow> ui \<Rightarrow> ui" where
  \<comment> \<open>one more timer is pending, set last: the debounce timer \<open>handle\<close>, due at \<open>due\<close>\<close>
  "pending_debounce handle due s =
     issued handle (s\<lparr>timers := timers s @ [(handle, due, CreateTOC)]\<rparr>)"

definition handles_issued :: "ui \<Rightarrow> bool" where
  \<comment> \<open>the handles of the pending timers are among those given out so far\<close>
  "handles_issued s = list_all (\<lambda>(handle, due, run). handle \<le> timerCount s) (timers s)"

section \<open>DragManager: collapse and expand\<close>

text \<open>
  What \<open>toggleCollapse\<close> reads and writes of the panel element: its layout box
  (\<open>getBoundingClientRect\<close>, \<open>offsetHeight\<close>), the class \<open>collapsed\<close> and the data
  attribute that remembers the width. \<open>applyPosition\<close> fixes the element at the given
  left and top with no transform, so the box is then at that point.
\<close>

record toc_element =
  rect_left :: real
  rect_top :: real
  rect_width :: real
  offsetHeight :: real
  collapsed :: bool
  expandedWidth :: "real option"

record position_store =
  savedPosition :: "position option"
  savedCollapsed :: "bool option"

definition applyPosition :: "toc_element \<Rightarrow> real \<Rightarrow> real \<Rightarrow> toc_element" where
  "applyPosition element x y = element\<lparr>rect_left := x, rect_top := y\<rparr>"

definition savePosition :: "real \<Rightarrow> real \<Rightarrow> position_store \<Rightarrow> position_store" where
  "savePosition x y store = store\<lparr>savedPosition := Some \<lparr>pos_x = x, pos_y = y\<rparr>\<rparr>"

definition saveCollapsedState :: "bool \<Rightarrow> position_store \<Rightarrow> position_store" where
  "saveCollapsedState isCollapsed store = store\<lparr>savedCollapsed := Some isCollapsed\<rparr>"

definition parsedExpandedWidth :: "toc_element \<Rightarrow> real" where
  \<comment> \<open>\<open>parseFloat(dataset.expandedWidth) || 300\<close>: a missing attribute parses to NaN, and NaN and 0 are falsy\<close>
  "parsedExpandedWidth element =
     (case expandedWidth element of None \<Rightarrow> 300 | Some w \<Rightarrow> if w = 0 then 300 else w)"

definition toggleCollapse ::
  "viewport \<Rightarrow> bool \<Rightarrow> toc_element \<times> position_store \<Rightarrow> toc_element \<times> position_store" where
  "toggleCollapse window isExpanding es =
     (let (element, store) = es;
          currentX = rect_left element;
          currentY = rect_top element;
          collapsedSize = 48
      in if \<not> isExpanding then
           let expandedWidth' = rect_width element;
               element1 = element\<lparr>expandedWidth := Some expandedWidth'\<rparr>;
               newX = currentX + expandedWidth' - collapsedSize;
               element2 = element1\<lparr>collapsed := True\<rparr>
           in (applyPosition element2 newX currentY,
               saveCollapsedState True (savePosition newX currentY store))
         else
           let expandedWidth' = parsedExpandedWidth element;
               newX = currentX - (expandedWidth' - collapsedSize);
               element1 = element\<lparr>collapsed := False\<rparr>;
               constrained = constrainToViewport window newX currentY expandedWidth'
                               (offsetHeight element1)
           in (applyPosition element1 (pos_x constrained) (pos_y constrained),
               saveCollapsedState False
                 (savePosition (pos_x constrained) (pos_y constrained) store)))"

section \<open>Export\<close>

text \<open>
  \<open>new Date()\<close> enters as the two strings the code asks of it.
\<close>

record date =
  toLocaleDateString :: string
  toISOString :: string

definition numbered :: "nat \<Rightarrow> 'e question \<Rightarrow> string" where
  \<comment> \<open>the template \<open>${i + 1}. ${text}\<close>\<close>
  "numbered i q = string_of_nat (i + 1) @ ''. '' @ questionText q"

definition exportAsText :: "'e question list \<Rightarrow> string" where
  "exportAsText questions = join ''\<newline>'' (map (\<lambda>(i, q). numbered i q) (enumerate 0 questions))"

definition exportAsMarkdown :: "site_config \<Rightarrow> date \<Rightarrow> 'e question list \<Rightarrow> string" where
  \<comment> \<open>the text handed to the clipboard\<close>
  "exportAsMarkdown config today questions =
     (let siteName = name config;
          date = toLocaleDateString today;
          md = ''# '' @ siteName @ '' Conversation Summary\<newline>'';
          md = md @ ''_Exported on '' @ date @ ''_\<newline>\<newline>'';
          md = md @ ''## Queries ('' @ string_of_nat (length questions) @ '')\<newline>\<newline>''
      in foldl (\<lambda>md (i, q). md @ numbered i q @ ''\<newline>'') md (enumerate 0 questions))"

record download =
  content :: string
  filename :: string
  mimeType :: string

definition downloadAsFile :: "site_config \<Rightarrow> date \<Rightarrow> 'e question list \<Rightarrow> string \<Rightarrow> download" where
  "downloadAsFile config today questions format =
     (let siteName = name config;
          date = takeWhile (\<lambda>c. c \<noteq> CHR ''T'') (toISOString today)
      in if format = ''md'' then
           let content = ''# '' @ siteName @ '' Conversation Summary\<newline>'';
               content = content @ ''_Exported on '' @ date @ ''_\<newline>\<newline>'';
               content = content @ ''## Queries ('' @ string_of_nat (length questions) @ '')\<newline>\<newline>'';
               content = foldl (\<lambda>content (i, q). content @ numbered i q @ ''\<newline>'') content
                           (enumerate 0 questions)
           in \<lparr>content = content,
               filename = toLowerCase siteName @ ''-queries-'' @ date @ ''.md'',
               mimeType = ''text/markdown''\<rparr>
         else
           \<lparr>content = join ''\<newline>'' (map (\<lambda>(i, q). numbered i q) (enumerate 0 questions)),
            filename = toLowerCase siteName @ ''-queries-'' @ date @ ''.txt'',
            mimeType = ''text/plain''\<rparr>)"

text \<open>
  The Markdown document as the specification words it: a header line, a subline with the
  date, a blank line, the line with the number of queries, a blank line, then one
  numbered line per query, each line ended by a newline.
\<close>

definition markdown_lines :: "string \<Rightarrow> string \<Rightarrow> string list \<Rightarrow> string list" where
  "markdown_lines siteName date texts =
     [''# '' @ siteName @ '' Conversation Summary'',
      ''_Exported on '' @ date @ ''_'',
      [],
      ''## Queries ('' @ string_of_nat (length texts) @ '')'',
      []] @
     map (\<lambda>i. string_of_nat i @ ''. '' @ texts ! (i - 1)) [1..<length texts + 1]"

definition markdown_document :: "string \<Rightarrow> string \<Rightarrow> string list \<Rightarrow> string" where
  "markdown_document siteName date texts =
     concat (map (\<lambda>line. line @ ''\<newline>'') (markdown_lines siteName date texts))"

section \<open>Viewport clamping\<close>

text \<open>
  C1. When the element leaves room for the padding on both sides, the clamped point lies
  between the padding and the viewport size minus the element size minus the padding, on
  each axis and for every input point. When the viewport is smaller than the element plus
  twice the padding, the coordinate is the padding.
\<close>

theorem constrainToViewport_bounds:
  "(w < W - 2 * PADDING \<and> h < H - 2 * PADDING \<longrightarrow>
      PADDING \<le> pos_x (constrainToViewport \<lparr>innerWidth = W, innerHeight = H\<rparr> x y w h) \<and>
      pos_x (constrainToViewport \<lparr>innerWidth = W, innerHeight = H\<rparr> x y w h) \<le> W - w - PADDING \<and>
      PADDING \<le> pos_y (constrainToViewport \<lparr>innerWidth = W, innerHeight = H\<rparr> x y w h) \<and>
      pos_y (constrainToViewport \<lparr>innerWidth = W, innerHeight = H\<rparr> x y w h) \<le> H - h - PADDING) \<and>
   (W < w + 2 * PADDING \<longrightarrow>
      pos_x (constrainToViewport \<lparr>innerWidth = W, innerHeight = H\<rparr> x y w h) = PADDING) \<and>
   (H < h + 2 * PADDING \<longrightarrow>
      pos_y (constrainToViewport \<lparr>innerWidth = W, innerHeight = H\<rparr> x y w h) = PADDING)"
  by (simp add: constrainToViewport_def Let_def PADDING_def)

theorem constrainToViewport_bounds_witness:
  "(300::real) < 1280 - 2 * PADDING \<and> (400::real) < 720 - 2 * PADDING \<and>
   pos_x (constrainToViewport \<lparr>innerWidth = 1280, innerHeight = 720\<rparr> 5000 (-30) 300 400) = 970 \<and>
   pos_y (constrainToViewport \<lparr>innerWidth = 1280, innerHeight = 720\<rparr> 5000 (-30) 300 400) = 10 \<and>
   (200::real) < 300 + 2 * PADDING \<and> (350::real) < 400 + 2 * PADDING \<and>
   pos_x (constrainToViewport \<lparr>innerWidth = 200, innerHeight = 350\<rparr> 77 88 300 400) = PADDING \<and>
   pos_y (constrainToViewport \<lparr>innerWidth = 200, innerHeight = 350\<rparr> 77 88 300 400) = PADDING"
  using constrainToViewport_bounds [of 300 1280 400 720 5000 "-30"]
        constrainToViewport_bounds [of 300 200 400 350 77 88]
  by (simp add: constrainToViewport_def Let_def PADDING_def)

section \<open>Row text\<close>

text \<open>
  C10. Every query gets one row, in order. The row shows the query text when it has at
  most 70 characters and otherwise its first 67 characters followed by three dots; the
  title of the row's link is always the whole text.
\<close>

theorem populateTOCList_rows:
  "length (populateTOCList questions) = length questions \<and>
   (\<forall>i < length questions.
      (length (questionText (questions ! i)) \<le> 70 \<longrightarrow>
         link_textContent (populateTOCList questions ! i) = questionText (questions ! i)) \<and>
      (length (questionText (questions ! i)) > 70 \<longrightarrow>
         link_textContent (populateTOCList questions ! i) =
           take 67 (questionText (questions ! i)) @ ''...'') \<and>
      link_title (populateTOCList questions ! i) = questionText (questions ! i))"
  by (simp add: populateTOCList_def make_list_item_def shortText_def MAX_QUERY_LENGTH_def
      TRUNCATE_SUFFIX_def nth_enumerate_eq)

theorem populateTOCList_rows_witness:
  "length (populateTOCList [QObject ''Explain recursion'' (0::nat), QString (replicate 71 CHR ''a'')]) = 2 \<and>
   link_textContent (populateTOCList [QObject ''Explain recursion'' (0::nat), QString (replicate 71 CHR ''a'')] ! 0) =
     ''Explain recursion'' \<and>
   link_textContent (populateTOCList [QObject ''Explain recursion'' (0::nat), QString (replicate 71 CHR ''a'')] ! 1) =
     replicate 67 CHR ''a'' @ ''...'' \<and>
   link_title (populateTOCList [QObject ''Explain recursion'' (0::nat), QString (replicate 71 CHR ''a'')] ! 1) =
     replicate 71 CHR ''a''"
proof -
  let ?qs = "[QObject ''Explain recursion'' (0::nat), QString (replicate 71 CHR ''a'')]"
  note r = populateTOCList_rows [of ?qs]
  from r have len: "length (populateTOCList ?qs) = 2" by simp
  from r have rows: "\<forall>i < length ?qs.
      (length (questionText (?qs ! i)) \<le> 70 \<longrightarrow>
         link_textContent (populateTOCList ?qs ! i) = questionText (?qs ! i)) \<and>
      (length (questionText (?qs ! i)) > 70 \<longrightarrow>
         link_textContent (populateTOCList ?qs ! i) =
           take 67 (questionText (?qs ! i)) @ ''...'') \<and>
      link_title (populateTOCList ?qs ! i) = questionText (?qs ! i)"
    by (rule conjunct2)
  from rows [rule_format, of 0]
  have short: "link_textContent (populateTOCList ?qs ! 0) = ''Explain recursion''"
    by simp
  from rows [rule_format, of 1]
  have long: "link_textContent (populateTOCList ?qs ! 1) = replicate 67 CHR ''a'' @ ''...''"
    and title: "link_title (populateTOCList ?qs ! 1) = replicate 71 CHR ''a''"
    by simp_all
  from len short long title show ?thesis by blast
qed

section \<open>Helper facts\<close>

lemma string_of_nat_digits:
  "string_of_nat 0 = ''0''" "string_of_nat 1 = ''1''" "string_of_nat 2 = ''2''"
  "string_of_nat 3 = ''3''" "string_of_nat 4 = ''4''" "string_of_nat (Suc 0) = ''1''"
  by code_simp+

lemma lower_site_names:
  "toLowerCase ''ChatGPT'' = ''chatgpt''" "toLowerCase ''Gemini'' = ''gemini''"
  "toLowerCase ''Perplexity'' = ''perplexity''" "toLowerCase ''Claude'' = ''claude''"
  by code_simp+

lemma createTOC_lines:
  "\<not> startsWith ''[TOC] No questions found, not creating TOC'' ''[TOC] Initial create for ''"
  "\<not> startsWith (''[TOC] Created with '' @ rest) ''[TOC] Initial create for ''"
  "\<not> startsWith skipping ''[TOC] Initial create for ''"
  by (simp_all add: startsWith_def skipping_def)

section \<open>Rebuild\<close>

text \<open>
  The document never holds more than one panel: the page starts with none, and no run
  of \<open>createTOC\<close>, no firing of timers and no request of the monitor takes the
  number above one.
\<close>

lemma initial_no_panel: "body initial_ui = []"
  by (simp add: initial_ui_def)

lemma createTOC_at_most_one:
  "length (body s) \<le> 1 \<Longrightarrow> length (body (createTOC config now questions s)) \<le> 1"
  by (cases "body s") (auto simp: createTOC_def removeExistingTOC_def Let_def)

lemma debouncedCreateTOC_body: "body (debouncedCreateTOC t s) = body s"
  by (simp add: debouncedCreateTOC_def clearPending_def setTimeout_def clearTimeout_def Let_def
      split: option.splits)

lemma fire_at_most_one:
  assumes "length (body s) \<le> 1"
  shows "length (body (fire config page timer s)) \<le> 1"
proof -
  obtain handle due run where timer: "timer = (handle, due, run)" by (cases timer)
  show ?thesis
  proof (cases run)
    case CreateTOC
    from assms have "length (body (createTOC config due (page due) s)) \<le> 1"
      by (rule createTOC_at_most_one)
    with timer CreateTOC show ?thesis by (simp add: fire_def)
  next
    case InitialCreate
    from assms have "length (body (s\<lparr>console := console s @ [''[TOC] Initial create for '' @ name config]\<rparr>)) \<le> 1"
      by simp
    then have "length (body (createTOC config due (page due)
        (s\<lparr>console := console s @ [''[TOC] Initial create for '' @ name config]\<rparr>))) \<le> 1"
      by (rule createTOC_at_most_one)
    with timer InitialCreate show ?thesis by (simp add: fire_def)
  qed
qed

lemma fired_at_most_one:
  "length (body s) \<le> 1 \<Longrightarrow>
   length (body (foldl (\<lambda>s' timer. fire config page timer s') s due_timers)) \<le> 1"
proof (induction due_timers arbitrary: s)
  case Nil
  then show ?case by simp
next
  case (Cons timer due_timers)
  from Cons.prems have "length (body (fire config page timer s)) \<le> 1"
    by (rule fire_at_most_one)
  then have "length (body (foldl (\<lambda>s' timer. fire config page timer s')
      (fire config page timer s) due_timers)) \<le> 1"
    by (rule Cons.IH)
  then show ?case by simp
qed

lemma advance_at_most_one:
  "length (body s) \<le> 1 \<Longrightarrow> length (body (advance config page t s)) \<le> 1"
  unfolding advance_def by (rule fired_at_most_one) simp

lemma requests_at_most_one:
  "length (body s) \<le> 1 \<Longrightarrow> length (body (requests config page ts s)) \<le> 1"
proof (induction ts arbitrary: s)
  case Nil
  then show ?case by simp
next
  case (Cons t ts)
  from Cons.prems have "length (body (advance config page t s)) \<le> 1"
    by (rule advance_at_most_one)
  then have "length (body (debouncedCreateTOC t (advance config page t s))) \<le> 1"
    by (simp only: debouncedCreateTOC_body)
  then have "length (body (requests config page ts (debouncedCreateTOC t (advance config page t s)))) \<le> 1"
    by (rule Cons.IH)
  then show ?case by simp
qed

text \<open>
  C5. A run of \<open>createTOC\<close> that the cooldown does not refuse, on a document with at most
  one panel, leaves no panel when the extracted sequence is empty; otherwise it leaves
  exactly one panel, the new one, with one row per query in order (numbered from 1,
  showing the shortened text, titled with the full text) and the footer text
  "N queries" for N queries. The panel that was there before is gone in both cases.
\<close>

theorem createTOC_rebuild:
  assumes "\<not> now - lastCreateTime s < 1000" and "length (body s) \<le> 1"
  shows "(questions = [] \<longrightarrow> body (createTOC config now questions s) = []) \<and>
   (questions \<noteq> [] \<longrightarrow>
      (\<exists>panel. body (createTOC config now questions s) = [panel] \<and>
         toc_id panel = ''toc-extension'' \<and>
         length (tocList panel) = length questions \<and>
         (\<forall>i < length questions.
            data_toc_num (tocList panel ! i) = i + 1 \<and>
            link_textContent (tocList panel ! i) = shortText (questionText (questions ! i)) \<and>
            link_title (tocList panel ! i) = questionText (questions ! i)) \<and>
         tocCount panel = string_of_nat (length questions) @ '' queries''))"
  using assms
  by (cases "body s")
     (auto simp: createTOC_def removeExistingTOC_def Let_def buildTOCStructure_def
       restoreCollapsedState_def TOC_CONTAINER_def populateTOCList_def make_list_item_def
       nth_enumerate_eq)

theorem createTOC_rebuild_witness:
  "\<not> 5000 - lastCreateTime (createTOC claude 2000 [QObject ''Explain recursion'' (0::nat)] initial_ui) < 1000 \<and>
   length (body (createTOC claude 2000 [QObject ''Explain recursion'' (0::nat)] initial_ui)) = 1 \<and>
   body (createTOC claude 5000 ([] :: nat question list)
          (createTOC claude 2000 [QObject ''Explain recursion'' (0::nat)] initial_ui)) = [] \<and>
   map (\<lambda>panel. (map link_textContent (tocList panel), tocCount panel))
     (body (createTOC claude 5000 [QObject ''Explain recursion'' (0::nat)]
          (createTOC claude 2000 [QObject ''Explain recursion'' (0::nat)] initial_ui))) =
     [([''Explain recursion''], ''1 queries'')]"
  using createTOC_rebuild [of 5000 "createTOC claude 2000 [QObject ''Explain recursion'' (0::nat)] initial_ui"
          "[] :: nat question list" claude]
        createTOC_rebuild [of 5000 "createTOC claude 2000 [QObject ''Explain recursion'' (0::nat)] initial_ui"
          "[QObject ''Explain recursion'' (0::nat)]" claude]
  by (simp add: createTOC_def removeExistingTOC_def Let_def buildTOCStructure_def initial_ui_def
       restoreCollapsedState_def getCollapsedState_def populateTOCList_def make_list_item_def
       enumerate_eq_zip shortText_def MAX_QUERY_LENGTH_def string_of_nat_digits claude_def)

section \<open>Cooldown\<close>

text \<open>
  C7. A call of \<open>createTOC\<close> less than 1000 time units after the last rebuild changes
  nothing but the console: no rebuild runs, the document, the time stamp and the timers
  stay as they are, so the request is dropped and not queued. A call at 1000 units or more
  after it runs the rebuild: the time stamp becomes the time of the call, the first
  existing panel is removed and a panel is added when there are queries. No call of
  \<open>createTOC\<close> sets or clears a timer.
\<close>

theorem createTOC_cooldown:
  "(now - lastCreateTime s < 1000 \<longrightarrow>
      createTOC config now questions s = s\<lparr>console := console s @ [skipping]\<rparr> \<and>
      rebuilds (createTOC config now questions s) = rebuilds s \<and>
      body (createTOC config now questions s) = body s \<and>
      lastCreateTime (createTOC config now questions s) = lastCreateTime s) \<and>
   timers (createTOC config now questions s) = timers s \<and>
   createTimer (createTOC config now questions s) = createTimer s \<and>
   (lastCreateTime s + 1000 \<le> now \<longrightarrow>
      rebuilds (createTOC config now questions s) = rebuilds s + 1 \<and>
      lastCreateTime (createTOC config now questions s) = now \<and>
      body (createTOC config now questions s) =
        tl (body s) @ (if questions = [] then []
                       else [restoreCollapsedState s (buildTOCStructure config questions)]))"
  using createTOC_lines(2) [of "string_of_nat (length questions) @ '' items''"] createTOC_lines(1,3)
  by (cases "body s")
     (auto simp: createTOC_def removeExistingTOC_def Let_def rebuilds_def skipping_def
        restoreCollapsedState_def getCollapsedState_def)

theorem createTOC_cooldown_witness:
  "lastCreateTime (createTOC claude 2000 [QObject ''Explain recursion'' (0::nat)] initial_ui) = 2000 \<and>
   rebuilds (createTOC claude 2000 [QObject ''Explain recursion'' (0::nat)] initial_ui) = 1 \<and>
   rebuilds (createTOC claude 2999 [QObject ''Explain recursion'' (0::nat), QObject ''And induction'' 1]
     (createTOC claude 2000 [QObject ''Explain recursion'' (0::nat)] initial_ui)) = 1 \<and>
   timers (createTOC claude 2999 [QObject ''Explain recursion'' (0::nat), QObject ''And induction'' 1]
     (createTOC claude 2000 [QObject ''Explain recursion'' (0::nat)] initial_ui)) = [] \<and>
   rebuilds (createTOC claude 3000 [QObject ''Explain recursion'' (0::nat), QObject ''And induction'' 1]
     (createTOC claude 2000 [QObject ''Explain recursion'' (0::nat)] initial_ui)) = 2 \<and>
   lastCreateTime (createTOC claude 3000 [QObject ''Explain recursion'' (0::nat), QObject ''And induction'' 1]
     (createTOC claude 2000 [QObject ''Explain recursion'' (0::nat)] initial_ui)) = 3000"
proof -
  let ?q1 = "[QObject ''Explain recursion'' (0::nat)]"
  let ?q2 = "[QObject ''Explain recursion'' (0::nat), QObject ''And induction'' 1]"
  let ?s1 = "createTOC claude 2000 ?q1 initial_ui"
  have first: "lastCreateTime ?s1 = 2000 \<and> rebuilds ?s1 = 1 \<and> timers ?s1 = []"
    using createTOC_cooldown [of 2000 initial_ui claude ?q1]
    by (simp add: initial_ui_def rebuilds_def)
  have "2999 - lastCreateTime ?s1 < 1000"
    using first by simp
  with createTOC_cooldown [of 2999 ?s1 claude ?q2]
  have "rebuilds (createTOC claude 2999 ?q2 ?s1) = rebuilds ?s1 \<and>
        timers (createTOC claude 2999 ?q2 ?s1) = timers ?s1"
    by blast
  with first have early: "rebuilds (createTOC claude 2999 ?q2 ?s1) = 1 \<and>
        timers (createTOC claude 2999 ?q2 ?s1) = []"
    by simp
  have "lastCreateTime ?s1 + 1000 \<le> 3000"
    using first by simp
  with createTOC_cooldown [of 3000 ?s1 claude ?q2]
  have "rebuilds (createTOC claude 3000 ?q2 ?s1) = rebuilds ?s1 + 1 \<and>
        lastCreateTime (createTOC claude 3000 ?q2 ?s1) = 3000"
    by blast
  with first have late: "rebuilds (createTOC claude 3000 ?q2 ?s1) = 2 \<and>
        lastCreateTime (createTOC claude 3000 ?q2 ?s1) = 3000"
    by simp
  from first early late show ?thesis by simp
qed

section \<open>Debounce\<close>

subsection \<open>Sorting a list with one more element\<close>

lemma insort_key_before:
  "f a \<le> f x \<Longrightarrow> insort_key f a (ls @ x # rs) = insort_key f a ls @ x # rs"
  by (induction ls) simp_all

lemma insort_key_after:
  "\<forall>y \<in> set ls. f y < f a \<Longrightarrow> f x < f a \<Longrightarrow>
   insort_key f a (ls @ x # rs) = ls @ x # insort_key f a rs"
  by (induction ls) (simp_all add: not_le [symmetric])

lemma sort_key_snoc:
  fixes f :: "'a \<Rightarrow> int"
  shows "sort_key f (xs @ [x]) =
     sort_key f (filter (\<lambda>y. f y \<le> f x) xs) @ x # sort_key f (filter (\<lambda>y. \<not> f y \<le> f x) xs)"
proof (induction xs)
  case Nil
  show ?case by simp
next
  case (Cons a xs)
  show ?case
  proof (cases "f a \<le> f x")
    case True
    then show ?thesis by (simp add: Cons.IH insort_key_before)
  next
    case False
    then have "\<forall>y \<in> set (sort_key f (filter (\<lambda>y. f y \<le> f x) xs)). f y < f a" and "f x < f a"
      by auto
    then show ?thesis using False by (simp add: Cons.IH insort_key_after)
  qed
qed

subsection \<open>A run of \<open>createTOC\<close> does not read the timers\<close>

lemma createTOC_timers_update:
  "createTOC config now questions (s\<lparr>timers := pending\<rparr>) =
     (createTOC config now questions s)\<lparr>timers := pending\<rparr>"
  by (cases "body s")
     (simp_all add: createTOC_def removeExistingTOC_def Let_def restoreCollapsedState_def
        getCollapsedState_def)

lemma createTOC_issued:
  "createTOC config now questions (issued handle s) =
     issued handle (createTOC config now questions s)"
  by (cases "body s")
     (simp_all add: createTOC_def removeExistingTOC_def Let_def restoreCollapsedState_def
        getCollapsedState_def issued_def)

lemma createTOC_timer_fields:
  "timers (createTOC config now questions s) = timers s"
  "timerCount (createTOC config now questions s) = timerCount s"
  "createTimer (createTOC config now questions s) = createTimer s"
  by (cases "body s"; simp add: createTOC_def removeExistingTOC_def Let_def)+

lemma fire_timers_update:
  "fire config page timer (s\<lparr>timers := pending\<rparr>) = (fire config page timer s)\<lparr>timers := pending\<rparr>"
  by (cases timer; cases "snd (snd timer)"; cases "body s")
     (simp_all add: fire_def createTOC_def removeExistingTOC_def Let_def restoreCollapsedState_def
        getCollapsedState_def)

lemma fire_issued:
  "fire config page timer (issued handle s) = issued handle (fire config page timer s)"
  by (cases timer; cases "snd (snd timer)"; cases "body s")
     (simp_all add: fire_def createTOC_def removeExistingTOC_def Let_def restoreCollapsedState_def
        getCollapsedState_def issued_def)

lemma fire_timer_fields:
  "timers (fire config page timer s) = timers s"
  "timerCount (fire config page timer s) = timerCount s"
  "createTimer (fire config page timer s) = createTimer s"
  by (cases timer; cases "snd (snd timer)"; simp add: fire_def createTOC_timer_fields)+

lemma fired_timers_update:
  "foldl (\<lambda>s' timer. fire config page timer s') (s\<lparr>timers := pending\<rparr>) due_timers =
     (foldl (\<lambda>s' timer. fire config page timer s') s due_timers)\<lparr>timers := pending\<rparr>"
  by (induction due_timers arbitrary: s) (simp_all add: fire_timers_update)

lemma fired_issued:
  "foldl (\<lambda>s' timer. fire config page timer s') (issued handle s) due_timers =
     issued handle (foldl (\<lambda>s' timer. fire config page timer s') s due_timers)"
  by (induction due_timers arbitrary: s) (simp_all add: fire_issued)

lemma fired_timer_fields:
  "timers (foldl (\<lambda>s' timer. fire config page timer s') s due_timers) = timers s"
  "timerCount (foldl (\<lambda>s' timer. fire config page timer s') s due_timers) = timerCount s"
  "createTimer (foldl (\<lambda>s' timer. fire config page timer s') s due_timers) = createTimer s"
  by (induction due_timers arbitrary: s; simp add: fire_timer_fields)+

lemma advance_timer_fields:
  "timers (advance config page t s) = filter (\<lambda>timer. \<not> due_time timer \<le> t) (timers s)"
  "timerCount (advance config page t s) = timerCount s"
  "createTimer (advance config page t s) = createTimer s"
  by (simp_all add: advance_def fired_timer_fields)

lemma advance_issued:
  "advance config page t (issued handle s) = issued handle (advance config page t s)"
proof -
  have "(issued handle s)\<lparr>timers := pending\<rparr> = issued handle (s\<lparr>timers := pending\<rparr>)" for pending
    by (simp add: issued_def)
  moreover have "timers (issued handle s) = timers s"
    by (simp add: issued_def)
  ultimately show ?thesis
    by (simp add: advance_def fired_issued)
qed

subsection \<open>The pending debounce timer\<close>

lemma advance_pending_debounce:
  assumes "t < due"
  shows "advance config page t (pending_debounce handle due s) =
     pending_debounce handle due (advance config page t s)"
proof -
  let ?s' = "s\<lparr>timers := timers s @ [(handle, due, CreateTOC)]\<rparr>"
  let ?fired = "foldl (\<lambda>s' timer. fire config page timer s') s
       (sort_key due_time (filter (\<lambda>timer. due_time timer \<le> t) (timers s)))"
  from assms have later: "\<not> due_time (handle, due, CreateTOC) \<le> t"
    by (simp add: due_time_def)
  have "advance config page t ?s' =
      foldl (\<lambda>s' timer. fire config page timer s')
        (s\<lparr>timers := filter (\<lambda>timer. \<not> due_time timer \<le> t) (timers s) @ [(handle, due, CreateTOC)]\<rparr>)
        (sort_key due_time (filter (\<lambda>timer. due_time timer \<le> t) (timers s)))"
    using later by (simp add: advance_def)
  also have "\<dots> = ?fired\<lparr>timers := filter (\<lambda>timer. \<not> due_time timer \<le> t) (timers s) @ [(handle, due, CreateTOC)]\<rparr>"
    by (rule fired_timers_update)
  finally have left: "advance config page t ?s' =
      ?fired\<lparr>timers := filter (\<lambda>timer. \<not> due_time timer \<le> t) (timers s) @ [(handle, due, CreateTOC)]\<rparr>" .
  have adv: "advance config page t s = ?fired\<lparr>timers := filter (\<lambda>timer. \<not> due_time timer \<le> t) (timers s)\<rparr>"
    by (simp add: advance_def fired_timers_update)
  have right: "(advance config page t s)\<lparr>timers := timers (advance config page t s) @ [(handle, due, CreateTOC)]\<rparr> =
      ?fired\<lparr>timers := filter (\<lambda>timer. \<not> due_time timer \<le> t) (timers s) @ [(handle, due, CreateTOC)]\<rparr>"
    by (simp add: adv)
  show ?thesis
    unfolding pending_debounce_def advance_issued left right ..
qed

lemma debounced_first:
  "debouncedCreateTOC t s = pending_debounce (timerCount s + 1) (t + 300) (clearPending s)"
proof -
  have "timerCount (clearPending s) = timerCount s"
    by (simp add: clearPending_def clearTimeout_def split: option.splits)
  then show ?thesis
    by (simp add: debouncedCreateTOC_def setTimeout_def pending_debounce_def issued_def)
qed

lemma debounced_replace:
  assumes "\<forall>timer \<in> set (timers s). fst timer < handle" and "handle \<noteq> 0"
  shows "debouncedCreateTOC t (pending_debounce handle due s) =
     pending_debounce (handle + 1) (t + 300) s"
proof -
  from assms(1) have keep: "filter (\<lambda>(h, due, run). h \<noteq> handle) (timers s) = timers s"
    by (auto simp: filter_id_conv)
  have "clearPending (pending_debounce handle due s) = issued handle s"
    using assms(2) by (simp add: clearPending_def clearTimeout_def pending_debounce_def issued_def keep)
  then show ?thesis
    by (simp add: debounced_first) (simp add: pending_debounce_def issued_def)
qed

lemma requests_pending:
  "\<forall>timer \<in> set (timers s). fst timer < handle \<Longrightarrow> handle \<noteq> 0 \<Longrightarrow>
   gaps_below 300 (t0 # ts) \<Longrightarrow>
   requests config page ts (pending_debounce handle (t0 + 300) s) =
     pending_debounce (handle + length ts) (last (t0 # ts) + 300) (waits config page ts s)"
proof (induction ts arbitrary: s handle t0)
  case Nil
  then show ?case by simp
next
  case (Cons t ts)
  from Cons.prems have gap: "t < t0 + 300" and rest: "gaps_below 300 (t # ts)"
    by simp_all
  have adv: "advance config page t (pending_debounce handle (t0 + 300) s) =
      pending_debounce handle (t0 + 300) (advance config page t s)"
    using gap by (rule advance_pending_debounce)
  from Cons.prems(1) have older: "\<forall>timer \<in> set (timers (advance config page t s)). fst timer < handle"
    by (simp add: advance_timer_fields)
  have deb: "debouncedCreateTOC t (pending_debounce handle (t0 + 300) (advance config page t s)) =
      pending_debounce (handle + 1) (t + 300) (advance config page t s)"
    using older Cons.prems(2) by (rule debounced_replace)
  from older have older': "\<forall>timer \<in> set (timers (advance config page t s)). fst timer < handle + 1"
    by auto
  have "requests config page ts (pending_debounce (handle + 1) (t + 300) (advance config page t s)) =
      pending_debounce (handle + 1 + length ts) (last (t # ts) + 300)
        (waits config page ts (advance config page t s))"
    using older' _ rest by (rule Cons.IH) simp
  then show ?case by (simp add: adv deb)
qed

lemma requests_burst:
  assumes "handles_issued s" and "gaps_below 300 (t # ts)"
  shows "requests config page (t # ts) s =
     pending_debounce (timerCount s + length (t # ts)) (last (t # ts) + 300)
       (without_requests config page (t # ts) s)"
proof -
  let ?b = "clearPending (advance config page t s)"
  have count: "timerCount (advance config page t s) = timerCount s"
    by (simp add: advance_timer_fields)
  have "set (timers ?b) \<subseteq> set (timers s)"
    by (auto simp: clearPending_def clearTimeout_def advance_timer_fields split: option.splits)
  with assms(1) have older: "\<forall>timer \<in> set (timers ?b). fst timer < timerCount s + 1"
    by (fastforce simp: handles_issued_def list_all_iff)
  have "requests config page ts (pending_debounce (timerCount s + 1) (t + 300) ?b) =
      pending_debounce (timerCount s + 1 + length ts) (last (t # ts) + 300) (waits config page ts ?b)"
    using older _ assms(2) by (rule requests_pending) simp
  then show ?thesis by (simp add: debounced_first count)
qed

lemma debounce_fires:
  assumes "due \<le> T"
  shows "advance config page T (pending_debounce handle due s) =
     advance config page T (createTOC config due (page due) (advance config page due (issued handle s)))"
proof -
  let ?x = "(handle, due, CreateTOC)"
  let ?fires = "\<lambda>due_timers s. foldl (\<lambda>s' timer. fire config page timer s') s due_timers"
  let ?first = "sort_key due_time (filter (\<lambda>timer. due_time timer \<le> due) (timers s))"
  let ?second = "sort_key due_time
      (filter (\<lambda>timer. \<not> due_time timer \<le> due) (filter (\<lambda>timer. due_time timer \<le> T) (timers s)))"
  let ?rest = "filter (\<lambda>timer. \<not> due_time timer \<le> T) (timers s)"
  have x: "due_time ?x = due" by (simp add: due_time_def)
  have first: "filter (\<lambda>timer. due_time timer \<le> due) (filter (\<lambda>timer. due_time timer \<le> T) (timers s)) =
      filter (\<lambda>timer. due_time timer \<le> due) (timers s)"
    using assms by (auto intro: filter_cong)
  have order: "sort_key due_time (filter (\<lambda>timer. due_time timer \<le> T) (timers s) @ [?x]) =
      ?first @ ?x # ?second"
    using sort_key_snoc [of due_time "filter (\<lambda>timer. due_time timer \<le> T) (timers s)" ?x]
    by (simp only: x first)
  have timers_pending: "timers (pending_debounce handle due s) = timers s @ [?x]"
    by (simp add: pending_debounce_def issued_def)
  have cut: "(pending_debounce handle due s)\<lparr>timers := ?rest\<rparr> = (issued handle s)\<lparr>timers := ?rest\<rparr>"
    by (simp add: pending_debounce_def issued_def)
  have left: "advance config page T (pending_debounce handle due s) =
      (?fires ?second (createTOC config due (page due) (?fires ?first (issued handle s))))\<lparr>timers := ?rest\<rparr>"
    using assms
    by (simp add: advance_def timers_pending x order cut fired_timers_update fire_timers_update)
       (simp add: fire_def)
  let ?called = "createTOC config due (page due) (?fires ?first (issued handle s))"
  let ?later = "filter (\<lambda>timer. \<not> due_time timer \<le> due) (timers s)"
  let ?mid = "createTOC config due (page due) (advance config page due (issued handle s))"
  have mid: "?mid = ?called\<lparr>timers := ?later\<rparr>"
    by (simp add: advance_def fired_timers_update createTOC_timers_update issued_def)
  have pending: "timers ?mid = ?later"
    by (simp add: mid)
  have due2: "filter (\<lambda>timer. due_time timer \<le> T) ?later =
      filter (\<lambda>timer. \<not> due_time timer \<le> due) (filter (\<lambda>timer. due_time timer \<le> T) (timers s))"
    by (auto intro: filter_cong)
  have rest2: "filter (\<lambda>timer. \<not> due_time timer \<le> T) ?later = ?rest"
    using assms by (auto intro: filter_cong)
  have "advance config page T m =
      ?fires (sort_key due_time (filter (\<lambda>timer. due_time timer \<le> T) (timers m)))
        (m\<lparr>timers := filter (\<lambda>timer. \<not> due_time timer \<le> T) (timers m)\<rparr>)" for m :: ui
    by (simp only: advance_def)
  from this [of ?mid] have "advance config page T ?mid = ?fires ?second (?mid\<lparr>timers := ?rest\<rparr>)"
    by (simp only: pending due2 rest2)
  also have "\<dots> = (?fires ?second ?mid)\<lparr>timers := ?rest\<rparr>"
    by (rule fired_timers_update)
  also have "?fires ?second ?mid = (?fires ?second ?called)\<lparr>timers := ?later\<rparr>"
    unfolding mid by (rule fired_timers_update)
  finally have right: "advance config page T ?mid = (?fires ?second ?called)\<lparr>timers := ?rest\<rparr>"
    by simp
  show ?thesis by (simp only: left right)
qed

lemma rebuilds_createTOC:
  "rebuilds (createTOC config now questions s) =
     rebuilds s + (if now - lastCreateTime s < 1000 then 0 else 1)"
  using createTOC_lines(2) [of "string_of_nat (length questions) @ '' items''"] createTOC_lines(1,3)
  by (cases "body s")
     (auto simp: createTOC_def removeExistingTOC_def Let_def rebuilds_def skipping_def)

subsection \<open>The handles of the pending timers\<close>

text \<open>
  Every pending timer has a handle that \<open>setTimeout\<close> has given out. This holds when the
  user interface is constructed and each step keeps it: a run of \<open>createTOC\<close>, the
  firing of timers, a request of the monitor, a prompt submission.
\<close>

lemma init_handles_issued: "handles_issued (init config now)"
  by (simp add: init_def delayedCreateTOC_def setTimeout_def initial_ui_def handles_issued_def)

lemma createTOC_handles_issued:
  "handles_issued s \<Longrightarrow> handles_issued (createTOC config now questions s)"
  by (simp add: handles_issued_def createTOC_timer_fields)

lemma delayedCreateTOC_handles_issued:
  "handles_issued s \<Longrightarrow> handles_issued (delayedCreateTOC config now s)"
  by (fastforce simp: handles_issued_def list_all_iff delayedCreateTOC_def setTimeout_def)

lemma advance_handles_issued:
  "handles_issued s \<Longrightarrow> handles_issued (advance config page t s)"
  by (simp add: handles_issued_def list_all_iff advance_timer_fields)

lemma debouncedCreateTOC_handles_issued:
  "handles_issued s \<Longrightarrow> handles_issued (debouncedCreateTOC t s)"
  by (fastforce simp: handles_issued_def list_all_iff debouncedCreateTOC_def clearPending_def
      setTimeout_def clearTimeout_def split: option.splits)

lemma handleDocumentClick_handles_issued:
  "handles_issued s \<Longrightarrow> handles_issued (handleDocumentClick config onSendButton t s)"
  by (fastforce simp: handles_issued_def list_all_iff handleDocumentClick_def setTimeout_def)

lemma requests_handles_issued:
  "handles_issued s \<Longrightarrow> handles_issued (requests config page ts s)"
  by (induction ts arbitrary: s)
     (simp_all add: advance_handles_issued debouncedCreateTOC_handles_issued)

subsection \<open>A burst of requests\<close>

text \<open>
  C6, as the code has it. Let one or more requests of the monitor arrive, each less than
  300 time units after the one before it, in any state of the page that the user
  interface can be in, whatever other timers are pending. Each request clears the
  debounce timer of the one before it, so the burst leaves the page as the same passing of
  time with no request leaves it (the console included: nothing ran for the requests),
  with one timer more, set last and due 300 units after the last request. From then on
  the page behaves as if \<open>createTOC\<close> had been called exactly once, 300 units after the
  last request and after the other timers due by then. That one call runs a rebuild when
  at least 1000 units have passed since the last rebuild and is refused by the cooldown
  otherwise, so the burst causes one rebuild or none.
\<close>

theorem debounce_coalescing:
  assumes "handles_issued s" and "gaps_below 300 (t # ts)" and "last (t # ts) + 300 \<le> T"
  shows "requests config page (t # ts) s =
           pending_debounce (timerCount s + length (t # ts)) (last (t # ts) + 300)
             (without_requests config page (t # ts) s) \<and>
         console (requests config page (t # ts) s) =
           console (without_requests config page (t # ts) s) \<and>
         advance config page T (requests config page (t # ts) s) =
           advance config page T
             (createTOC config (last (t # ts) + 300) (page (last (t # ts) + 300))
                (advance config page (last (t # ts) + 300)
                   (issued (timerCount s + length (t # ts))
                      (without_requests config page (t # ts) s)))) \<and>
         rebuilds (createTOC config (last (t # ts) + 300) (page (last (t # ts) + 300))
                (advance config page (last (t # ts) + 300)
                   (issued (timerCount s + length (t # ts))
                      (without_requests config page (t # ts) s)))) =
           rebuilds (advance config page (last (t # ts) + 300)
                   (issued (timerCount s + length (t # ts))
                      (without_requests config page (t # ts) s))) +
           (if last (t # ts) + 300 -
               lastCreateTime (advance config page (last (t # ts) + 300)
                   (issued (timerCount s + length (t # ts))
                      (without_requests config page (t # ts) s))) < 1000
            then 0 else 1)"
proof -
  let ?quiet = "without_requests config page (t # ts) s"
  let ?handle = "timerCount s + length (t # ts)"
  let ?due = "last (t # ts) + 300"
  have burst: "requests config page (t # ts) s = pending_debounce ?handle ?due ?quiet"
    using assms(1,2) by (rule requests_burst)
  have quiet: "console (pending_debounce ?handle ?due ?quiet) = console ?quiet"
    by (simp add: pending_debounce_def issued_def)
  have fired: "advance config page T (pending_debounce ?handle ?due ?quiet) =
      advance config page T
        (createTOC config ?due (page ?due) (advance config page ?due (issued ?handle ?quiet)))"
    using assms(3) by (rule debounce_fires)
  show ?thesis
    unfolding burst using quiet fired
    by (intro conjI) (rule refl, assumption, assumption, rule rebuilds_createTOC)
qed

theorem debounce_coalescing_witness:
  "handles_issued (handleDocumentClick claude True 1700 (init claude 0)) \<and>
   timers (handleDocumentClick claude True 1700 (init claude 0)) =
     [(1, 2000, InitialCreate), (2, 2200, CreateTOC)] \<and>
   gaps_below 300 [1800, 1900, 2100] \<and>
   timers (requests claude (still_page [QObject ''Explain recursion'' (0::nat)]) [1800, 1900, 2100]
     (handleDocumentClick claude True 1700 (init claude 0))) =
     [(2, 2200, CreateTOC), (5, 2400, CreateTOC)] \<and>
   console (advance claude (still_page [QObject ''Explain recursion'' (0::nat)]) 2400
     (requests claude (still_page [QObject ''Explain recursion'' (0::nat)]) [1800, 1900, 2100]
       (handleDocumentClick claude True 1700 (init claude 0)))) =
     [''[TOC] Initial create for Claude'', ''[TOC] Created with 1 items'',
      ''[TOC] Skipping - too soon since last create'',
      ''[TOC] Skipping - too soon since last create''] \<and>
   handles_issued (init claude 0) \<and> gaps_below 300 [2900, 3000] \<and>
   console (advance claude (still_page [QObject ''Explain recursion'' (0::nat)]) 3300
     (requests claude (still_page [QObject ''Explain recursion'' (0::nat)]) [2900, 3000] (init claude 0))) =
     [''[TOC] Initial create for Claude'', ''[TOC] Created with 1 items'',
      ''[TOC] Created with 1 items''] \<and>
   lastCreateTime (advance claude (still_page [QObject ''Explain recursion'' (0::nat)]) 3300
     (requests claude (still_page [QObject ''Explain recursion'' (0::nat)]) [2900, 3000] (init claude 0))) = 3300"
proof -
  let ?page = "still_page [QObject ''Explain recursion'' (0::nat)]"
  let ?clicked = "handleDocumentClick claude True 1700 (init claude 0)"
  have issued1: "handles_issued ?clicked" by code_simp
  have pending1: "timers ?clicked = [(1, 2000, InitialCreate), (2, 2200, CreateTOC)]" by code_simp
  have gaps1: "gaps_below 300 [1800, 1900, 2100]" by simp
  have due1: "last [1800, 1900, 2100] + 300 \<le> (2400::int)" by simp
  note first = debounce_coalescing [OF issued1 gaps1 due1, of claude ?page]
  from first have burst1: "requests claude ?page [1800, 1900, 2100] ?clicked =
      pending_debounce (timerCount ?clicked + length [1800, 1900, 2100 :: int]) (last [1800, 1900, 2100] + 300)
        (without_requests claude ?page [1800, 1900, 2100] ?clicked)"
    by (rule conjunct1)
  have "timers (pending_debounce (timerCount ?clicked + length [1800, 1900, 2100 :: int]) (last [1800, 1900, 2100] + 300)
        (without_requests claude ?page [1800, 1900, 2100] ?clicked)) = [(2, 2200, CreateTOC), (5, 2400, CreateTOC)]"
    by code_simp
  then have timers1: "timers (requests claude ?page [1800, 1900, 2100] ?clicked) =
      [(2, 2200, CreateTOC), (5, 2400, CreateTOC)]"
    by (simp only: burst1)
  from first have fired1: "advance claude ?page 2400 (requests claude ?page [1800, 1900, 2100] ?clicked) =
      advance claude ?page 2400
        (createTOC claude (last [1800, 1900, 2100] + 300) (?page (last [1800, 1900, 2100] + 300))
           (advance claude ?page (last [1800, 1900, 2100] + 300)
              (issued (timerCount ?clicked + length [1800, 1900, 2100 :: int])
                 (without_requests claude ?page [1800, 1900, 2100] ?clicked))))"
    by blast
  have "console (advance claude ?page 2400
        (createTOC claude (last [1800, 1900, 2100] + 300) (?page (last [1800, 1900, 2100] + 300))
           (advance claude ?page (last [1800, 1900, 2100] + 300)
              (issued (timerCount ?clicked + length [1800, 1900, 2100 :: int])
                 (without_requests claude ?page [1800, 1900, 2100] ?clicked))))) =
     [''[TOC] Initial create for Claude'', ''[TOC] Created with 1 items'',
      ''[TOC] Skipping - too soon since last create'',
      ''[TOC] Skipping - too soon since last create'']"
    by code_simp
  then have console1: "console (advance claude ?page 2400 (requests claude ?page [1800, 1900, 2100] ?clicked)) =
     [''[TOC] Initial create for Claude'', ''[TOC] Created with 1 items'',
      ''[TOC] Skipping - too soon since last create'',
      ''[TOC] Skipping - too soon since last create'']"
    by (simp only: fired1)
  have issued2: "handles_issued (init claude 0)" by code_simp
  have gaps2: "gaps_below 300 [2900, 3000]" by simp
  have due2: "last [2900, 3000] + 300 \<le> (3300::int)" by simp
  note second = debounce_coalescing [OF issued2 gaps2 due2, of claude ?page]
  from second have fired2: "advance claude ?page 3300 (requests claude ?page [2900, 3000] (init claude 0)) =
      advance claude ?page 3300
        (createTOC claude (last [2900, 3000] + 300) (?page (last [2900, 3000] + 300))
           (advance claude ?page (last [2900, 3000] + 300)
              (issued (timerCount (init claude 0) + length [2900, 3000 :: int])
                 (without_requests claude ?page [2900, 3000] (init claude 0)))))"
    by blast
  have "console (advance claude ?page 3300
        (createTOC claude (last [2900, 3000] + 300) (?page (last [2900, 3000] + 300))
           (advance claude ?page (last [2900, 3000] + 300)
              (issued (timerCount (init claude 0) + length [2900, 3000 :: int])
                 (without_requests claude ?page [2900, 3000] (init claude 0)))))) =
     [''[TOC] Initial create for Claude'', ''[TOC] Created with 1 items'',
      ''[TOC] Created with 1 items'']"
    and "lastCreateTime (advance claude ?page 3300
        (createTOC claude (last [2900, 3000] + 300) (?page (last [2900, 3000] + 300))
           (advance claude ?page (last [2900, 3000] + 300)
              (issued (timerCount (init claude 0) + length [2900, 3000 :: int])
                 (without_requests claude ?page [2900, 3000] (init claude 0)))))) = 3300"
    by code_simp+
  then have console2: "console (advance claude ?page 3300 (requests claude ?page [2900, 3000] (init claude 0))) =
     [''[TOC] Initial create for Claude'', ''[TOC] Created with 1 items'',
      ''[TOC] Created with 1 items'']"
    and stamp2: "lastCreateTime (advance claude ?page 3300
        (requests claude ?page [2900, 3000] (init claude 0))) = 3300"
    by (simp_all only: fired2)
  from issued1 pending1 gaps1 timers1 console1 issued2 gaps2 console2 stamp2
  show ?thesis by (intro conjI)
qed

text \<open>
  The claim as it is worded, exactly one rebuild for the requests of one window, fails
  inside the cooldown. The user interface is constructed at time 0 and its initial
  create runs the rebuild at 2000. One request of the monitor arrives at 2100, its timer
  fires at 2400, and \<open>createTOC\<close> refuses, since only 400 units have passed: there is one
  rebuild before the request and one after its timer has fired.
\<close>

theorem debounce_one_rebuild_counterexample:
  "rebuilds (advance claude (still_page [QObject ''Explain recursion'' (0::nat)]) 2100 (init claude 0)) = 1 \<and>
   gaps_below 300 [2100] \<and> last [2100] + 300 \<le> (2400::int) \<and>
   rebuilds (advance claude (still_page [QObject ''Explain recursion'' (0::nat)]) 2400
     (requests claude (still_page [QObject ''Explain recursion'' (0::nat)]) [2100] (init claude 0))) = 1 \<and>
   console (advance claude (still_page [QObject ''Explain recursion'' (0::nat)]) 2400
     (requests claude (still_page [QObject ''Explain recursion'' (0::nat)]) [2100] (init claude 0))) =
     [''[TOC] Initial create for Claude'', ''[TOC] Created with 1 items'',
      ''[TOC] Skipping - too soon since last create'']"
  by code_simp

section \<open>Collapse and expand\<close>

text \<open>
  C8, as the code has it. The panel is at a whole-pixel left edge \<open>x\<close> and has a
  whole-pixel width \<open>ew\<close> that is not zero; on such values the exact arithmetic of the
  model is the arithmetic of the code. Collapse it: it moves to \<open>x + (ew - 48)\<close>, keeps
  \<open>y\<close> and remembers \<open>ew\<close>. Expand it again, whatever size the layout gave the
  collapsed box and whatever height \<open>h'\<close> the expanded one has: the panel is at the
  point that clamping \<open>(x, y)\<close> to the viewport gives for the width \<open>ew\<close> and the
  height \<open>h'\<close>, and that point is the saved position. An element that remembers no
  width expands as one of width 300.
\<close>

theorem toggleCollapse_round_trip:
  assumes "rect_width element \<noteq> 0"
    and "rect_left element \<in> \<int>" and "rect_width element \<in> \<int>"
    and "toggleCollapse window False (element, store) = (smallElement, smallStore)"
    and "toggleCollapse window True (smallElement\<lparr>rect_width := w', offsetHeight := h'\<rparr>, smallStore) =
           (fullElement, fullStore)"
  shows "rect_left smallElement = rect_left element + (rect_width element - 48) \<and>
         rect_top smallElement = rect_top element \<and> collapsed smallElement \<and>
         expandedWidth smallElement = Some (rect_width element) \<and>
         \<lparr>pos_x = rect_left fullElement, pos_y = rect_top fullElement\<rparr> =
           constrainToViewport window (rect_left element) (rect_top element) (rect_width element) h' \<and>
         \<not> collapsed fullElement \<and>
         savedPosition fullStore =
           Some (constrainToViewport window (rect_left element) (rect_top element) (rect_width element) h') \<and>
         savedCollapsed fullStore = Some False \<and>
         (expandedWidth fresh = None \<longrightarrow>
            \<lparr>pos_x = rect_left (fst (toggleCollapse window True (fresh, freshStore))),
             pos_y = rect_top (fst (toggleCollapse window True (fresh, freshStore)))\<rparr> =
              constrainToViewport window (rect_left fresh - (300 - 48)) (rect_top fresh) 300
                (offsetHeight fresh))"
  using assms
  by (auto simp: toggleCollapse_def Let_def applyPosition_def parsedExpandedWidth_def
      savePosition_def saveCollapsedState_def constrainToViewport_def)

theorem toggleCollapse_round_trip_witness:
  "rect_width \<lparr>rect_left = 900, rect_top = 60, rect_width = 300, offsetHeight = 400,
      collapsed = False, expandedWidth = None\<rparr> \<noteq> 0 \<and>
   rect_left \<lparr>rect_left = 900, rect_top = 60, rect_width = 300, offsetHeight = 400,
      collapsed = False, expandedWidth = None\<rparr> \<in> \<int> \<and>
   rect_width \<lparr>rect_left = 900, rect_top = 60, rect_width = 300, offsetHeight = 400,
      collapsed = False, expandedWidth = None\<rparr> \<in> \<int> \<and>
   rect_left (fst (toggleCollapse \<lparr>innerWidth = 1280, innerHeight = 720\<rparr> False
     (\<lparr>rect_left = 900, rect_top = 60, rect_width = 300, offsetHeight = 400,
        collapsed = False, expandedWidth = None\<rparr>,
      \<lparr>savedPosition = None, savedCollapsed = None\<rparr>))) = 1152 \<and>
   rect_left (fst (toggleCollapse \<lparr>innerWidth = 1280, innerHeight = 720\<rparr> True
     ((fst (toggleCollapse \<lparr>innerWidth = 1280, innerHeight = 720\<rparr> False
        (\<lparr>rect_left = 900, rect_top = 60, rect_width = 300, offsetHeight = 400,
           collapsed = False, expandedWidth = None\<rparr>,
         \<lparr>savedPosition = None, savedCollapsed = None\<rparr>)))\<lparr>rect_width := 48, offsetHeight := 400\<rparr>,
      snd (toggleCollapse \<lparr>innerWidth = 1280, innerHeight = 720\<rparr> False
        (\<lparr>rect_left = 900, rect_top = 60, rect_width = 300, offsetHeight = 400,
           collapsed = False, expandedWidth = None\<rparr>,
         \<lparr>savedPosition = None, savedCollapsed = None\<rparr>))))) = 900 \<and>
   expandedWidth \<lparr>rect_left = 1000, rect_top = 60, rect_width = 48, offsetHeight = 400,
      collapsed = True, expandedWidth = None\<rparr> = None \<and>
   rect_left (fst (toggleCollapse \<lparr>innerWidth = 1280, innerHeight = 720\<rparr> True
     (\<lparr>rect_left = 1000, rect_top = 60, rect_width = 48, offsetHeight = 400,
        collapsed = True, expandedWidth = None\<rparr>,
      \<lparr>savedPosition = None, savedCollapsed = None\<rparr>))) = 748"
proof -
  let ?window = "\<lparr>innerWidth = 1280, innerHeight = 720\<rparr>"
  let ?element = "\<lparr>rect_left = 900, rect_top = 60, rect_width = 300, offsetHeight = 400,
      collapsed = False, expandedWidth = None\<rparr>"
  let ?fresh = "\<lparr>rect_left = 1000, rect_top = 60, rect_width = 48, offsetHeight = 400,
      collapsed = True, expandedWidth = None\<rparr>"
  let ?store = "\<lparr>savedPosition = None, savedCollapsed = None\<rparr>"
  let ?c = "toggleCollapse ?window False (?element, ?store)"
  let ?e = "toggleCollapse ?window True ((fst ?c)\<lparr>rect_width := 48, offsetHeight := 400\<rparr>, snd ?c)"
  have w: "rect_width ?element \<noteq> 0" by simp
  have xi: "rect_left ?element \<in> \<int>" by simp
  have wi: "rect_width ?element \<in> \<int>" by simp
  have unknown: "expandedWidth ?fresh = None" by simp
  note law = toggleCollapse_round_trip [where element = ?element and window = ?window and store = ?store
        and smallElement = "fst ?c" and smallStore = "snd ?c" and w' = 48 and h' = 400
        and fullElement = "fst ?e" and fullStore = "snd ?e" and fresh = ?fresh
        and freshStore = ?store, OF w xi wi]
  have trip: "rect_left (fst ?c) = rect_left ?element + (rect_width ?element - 48) \<and>
        \<lparr>pos_x = rect_left (fst ?e), pos_y = rect_top (fst ?e)\<rparr> =
           constrainToViewport ?window (rect_left ?element) (rect_top ?element) (rect_width ?element) 400"
    using law by simp
  then have moved: "rect_left (fst ?c) = 1152 \<and> rect_left (fst ?e) = 900"
    by (simp add: constrainToViewport_def PADDING_def Let_def)
  have "expandedWidth ?fresh = None \<longrightarrow>
      \<lparr>pos_x = rect_left (fst (toggleCollapse ?window True (?fresh, ?store))),
       pos_y = rect_top (fst (toggleCollapse ?window True (?fresh, ?store)))\<rparr> =
        constrainToViewport ?window (rect_left ?fresh - (300 - 48)) (rect_top ?fresh) 300
          (offsetHeight ?fresh)"
    using law by simp
  with unknown have "rect_left (fst (toggleCollapse ?window True (?fresh, ?store))) = 748"
    by (simp add: constrainToViewport_def PADDING_def Let_def)
  with w xi wi moved unknown show ?thesis by simp
qed

text \<open>
  The claim as it is worded is for every panel. A panel at 900 whose box has the width 0
  collapses to 852 and remembers the width 0; on expanding, that width reads as unknown,
  the panel is taken to be 300 wide and lands at 600, while the clamped point of its
  position is 900.
\<close>

theorem toggleCollapse_round_trip_counterexample:
  "rect_left (fst (toggleCollapse \<lparr>innerWidth = 1280, innerHeight = 720\<rparr> False
     (\<lparr>rect_left = 900, rect_top = 60, rect_width = 0, offsetHeight = 400,
        collapsed = False, expandedWidth = None\<rparr>,
      \<lparr>savedPosition = None, savedCollapsed = None\<rparr>))) = 852 \<and>
   rect_left (fst (toggleCollapse \<lparr>innerWidth = 1280, innerHeight = 720\<rparr> True
     (toggleCollapse \<lparr>innerWidth = 1280, innerHeight = 720\<rparr> False
        (\<lparr>rect_left = 900, rect_top = 60, rect_width = 0, offsetHeight = 400,
           collapsed = False, expandedWidth = None\<rparr>,
         \<lparr>savedPosition = None, savedCollapsed = None\<rparr>)))) = 600 \<and>
   pos_x (constrainToViewport \<lparr>innerWidth = 1280, innerHeight = 720\<rparr> 900 60 0 400) = 900"
  by (simp add: toggleCollapse_def Let_def applyPosition_def parsedExpandedWidth_def
      savePosition_def saveCollapsedState_def constrainToViewport_def PADDING_def)

section \<open>Markdown export\<close>

lemma foldl_append_lines:
  "foldl (\<lambda>md (i, q). md @ f i q) acc ps = acc @ concat (map (\<lambda>(i, q). f i q) ps)"
  by (induction ps arbitrary: acc) (auto simp: case_prod_beta)

lemma numbered_lines:
  "map (\<lambda>i. (string_of_nat i @ ''. '' @ map questionText questions ! (i - 1)) @ ''\<newline>'')
       [1..<length questions + 1] =
   map (\<lambda>(i, q). numbered i q @ ''\<newline>'') (enumerate 0 questions)"
  by (rule nth_equalityI) (simp_all add: nth_enumerate_eq numbered_def del: upt_Suc)

lemma markdown_document_eq:
  "markdown_document siteName d (map questionText questions) =
     ''# '' @ siteName @ '' Conversation Summary\<newline>'' @
     ''_Exported on '' @ d @ ''_\<newline>\<newline>'' @
     ''## Queries ('' @ string_of_nat (length questions) @ '')\<newline>\<newline>'' @
     concat (map (\<lambda>(i, q). numbered i q @ ''\<newline>'') (enumerate 0 questions))"
  using numbered_lines [of questions]
  by (simp add: markdown_document_def markdown_lines_def comp_def del: upt_Suc)

text \<open>
  C9, as the code has it. The Markdown copied to the clipboard is the document of the
  specification with the locale date in the subline. The Markdown that is downloaded is
  the same document with the ISO date (the ISO time stamp up to its \<open>T\<close>) in the subline.
  The file is named by the site name in lower case, \<open>-queries-\<close>, the ISO date, and the
  extension \<open>.md\<close> or \<open>.txt\<close>.
\<close>

theorem markdown_exports:
  "exportAsMarkdown config today questions =
     markdown_document (name config) (toLocaleDateString today) (map questionText questions) \<and>
   content (downloadAsFile config today questions ''md'') =
     markdown_document (name config) (takeWhile (\<lambda>c. c \<noteq> CHR ''T'') (toISOString today))
       (map questionText questions) \<and>
   filename (downloadAsFile config today questions ''md'') =
     toLowerCase (name config) @ ''-queries-'' @
       takeWhile (\<lambda>c. c \<noteq> CHR ''T'') (toISOString today) @ ''.md'' \<and>
   filename (downloadAsFile config today questions ''txt'') =
     toLowerCase (name config) @ ''-queries-'' @
       takeWhile (\<lambda>c. c \<noteq> CHR ''T'') (toISOString today) @ ''.txt''"
  by (simp add: exportAsMarkdown_def downloadAsFile_def Let_def markdown_document_eq
      foldl_append_lines)

text \<open>
  The claim as it is worded gives both exports the locale date. On the second of January
  2025 in a locale that writes that day \<open>1/2/2025\<close>, the downloaded document says
  \<open>2025-01-02\<close>.
\<close>

theorem markdown_download_counterexample:
  "content (downloadAsFile claude
      \<lparr>toLocaleDateString = ''1/2/2025'', toISOString = ''2025-01-02T09:30:00.000Z''\<rparr>
      [QObject ''Explain recursion'' (0::nat)] ''md'') =
     ''# Claude Conversation Summary\<newline>_Exported on 2025-01-02_\<newline>\<newline>## Queries (1)\<newline>\<newline>1. Explain recursion\<newline>'' \<and>
   content (downloadAsFile claude
      \<lparr>toLocaleDateString = ''1/2/2025'', toISOString = ''2025-01-02T09:30:00.000Z''\<rparr>
      [QObject ''Explain recursion'' (0::nat)] ''md'') \<noteq>
     markdown_document ''Claude'' ''1/2/2025'' [''Explain recursion'']"
  by (simp add: downloadAsFile_def Let_def claude_def markdown_document_def markdown_lines_def
      enumerate_eq_zip numbered_def string_of_nat_digits)

section \<open>White space\<close>

lemma trim_ends:
  assumes "trim s \<noteq> []"
  shows "\<not> is_ws (hd (trim s)) \<and> \<not> is_ws (last (trim s))"
proof -
  let ?ys = "dropWhile is_ws s"
  let ?zs = "dropWhile is_ws (rev ?ys)"
  from assms have zs: "?zs \<noteq> []" by (simp add: trim_def)
  then have ys: "?ys \<noteq> []" by (metis dropWhile.simps(1) rev.simps(1))
  have "\<not> is_ws (hd ?zs)" using zs by (rule hd_dropWhile)
  then have l: "\<not> is_ws (last (trim s))" using zs by (simp add: trim_def last_rev)
  have "rev ?ys = takeWhile is_ws (rev ?ys) @ ?zs" by simp
  then have "last (rev ?ys) = last ?zs" using zs by (metis last_appendR)
  then have "hd ?ys = last ?zs" using ys by (simp add: last_rev)
  moreover have "\<not> is_ws (hd ?ys)" using ys by (rule hd_dropWhile)
  ultimately have "\<not> is_ws (hd (trim s))" using zs by (simp add: trim_def hd_rev)
  with l show ?thesis by simp
qed

lemma trim_fixed:
  assumes "s \<noteq> []" "\<not> is_ws (hd s)" "\<not> is_ws (last s)"
  shows "trim s = s"
proof -
  from assms have 1: "dropWhile is_ws s = s" by (cases s) simp_all
  from assms have "rev s \<noteq> []" "\<not> is_ws (hd (rev s))" by (simp_all add: hd_rev)
  then have 2: "dropWhile is_ws (rev s) = rev s" by (cases "rev s") simp_all
  show ?thesis by (simp add: trim_def 1 2)
qed

lemma trim_trim: "trim (trim s) = trim s"
proof (cases "trim s = []")
  case True
  have "trim [] = []" by (simp add: trim_def)
  with True show ?thesis by simp
next
  case False
  with trim_ends [of s] show ?thesis by (intro trim_fixed) blast+
qed

lemma trim_prefix: "\<exists>zs. dropWhile is_ws s = trim s @ zs"
proof -
  let ?ys = "dropWhile is_ws s"
  have "rev (takeWhile is_ws (rev ?ys) @ dropWhile is_ws (rev ?ys)) = ?ys"
    by (simp only: takeWhile_dropWhile_id rev_rev_ident)
  then have "rev (dropWhile is_ws (rev ?ys)) @ rev (takeWhile is_ws (rev ?ys)) = ?ys"
    by (simp only: rev_append)
  then have "?ys = trim s @ rev (takeWhile is_ws (rev ?ys))"
    by (simp only: trim_def)
  then show ?thesis ..
qed

lemma single_spaced_Cons:
  "single_spaced (c # cs) \<longleftrightarrow>
     (is_ws c \<longrightarrow> c = CHR '' '' \<and> (cs = [] \<or> \<not> is_ws (hd cs))) \<and> single_spaced cs"
  by (cases cs) auto

lemma collapse_ws_Nil: "collapse_ws s = [] \<longleftrightarrow> s = []"
  by (cases s) auto

lemma hd_collapse_ws: "s \<noteq> [] \<Longrightarrow> \<not> is_ws (hd s) \<Longrightarrow> hd (collapse_ws s) = hd s"
  by (cases s) auto

lemma single_spaced_collapse_ws: "single_spaced (collapse_ws s)"
proof (induction s rule: collapse_ws.induct)
  case 1
  then show ?case by simp
next
  case (2 c cs)
  show ?case
  proof (cases "is_ws c")
    case True
    let ?ys = "dropWhile is_ws cs"
    have "collapse_ws ?ys = [] \<or> \<not> is_ws (hd (collapse_ws ?ys))"
    proof (cases "?ys = []")
      case True
      then show ?thesis by (metis collapse_ws.simps(1))
    next
      case False
      then have "\<not> is_ws (hd ?ys)" by (rule hd_dropWhile)
      with False show ?thesis by (simp add: hd_collapse_ws)
    qed
    with True 2 show ?thesis by (simp add: single_spaced_Cons del: single_spaced.simps)
  next
    case False
    with 2 show ?thesis by (simp add: single_spaced_Cons del: single_spaced.simps)
  qed
qed

lemma single_spaced_fixed: "single_spaced t \<Longrightarrow> collapse_ws t = t"
proof (induction t rule: collapse_ws.induct)
  case 1
  then show ?case by simp
next
  case (2 c cs)
  from "2.prems" have tl: "single_spaced cs" by (simp add: single_spaced_Cons del: single_spaced.simps)
  show ?case
  proof (cases "is_ws c")
    case True
    with "2.prems" have c: "c = CHR '' ''" and "cs = [] \<or> \<not> is_ws (hd cs)"
      by (simp_all add: single_spaced_Cons del: single_spaced.simps)
    then have d: "dropWhile is_ws cs = cs" by (cases cs) auto
    with 2 True tl c show ?thesis by simp
  next
    case False
    with 2 tl show ?thesis by simp
  qed
qed

lemma single_spaced_dropWhile: "single_spaced t \<Longrightarrow> single_spaced (dropWhile P t)"
  by (induction t) (auto simp: single_spaced_Cons simp del: single_spaced.simps)

lemma single_spaced_append_left: "single_spaced (xs @ ys) \<Longrightarrow> single_spaced xs"
proof (induction xs)
  case Nil
  then show ?case by simp
next
  case (Cons c xs)
  then show ?case
    by (cases xs) (auto simp: single_spaced_Cons simp del: single_spaced.simps)
qed

lemma single_spaced_trim: "single_spaced t \<Longrightarrow> single_spaced (trim t)"
proof -
  assume "single_spaced t"
  then have "single_spaced (dropWhile is_ws t)" by (rule single_spaced_dropWhile)
  moreover obtain zs where "dropWhile is_ws t = trim t @ zs" using trim_prefix by blast
  ultimately show ?thesis by (simp add: single_spaced_append_left)
qed

lemma normalize_fixed:
  "collapse_ws (normalize s) = normalize s" "trim (normalize s) = normalize s"
  by (simp_all add: normalize_def trim_trim single_spaced_fixed single_spaced_trim
      single_spaced_collapse_ws)

section \<open>Extracted texts\<close>


lemma trimmed_trim: "trim s \<noteq> [] \<Longrightarrow> trimmed (trim s)"
  using trim_ends [of s] by (simp add: trimmed_def trim_trim)

lemma trimmed_normalize: "normalize s \<noteq> [] \<Longrightarrow> trimmed (normalize s)"
  unfolding normalize_def by (rule trimmed_trim)

lemma chatgpt_texts:
  "q \<in> set (chatgpt_getQueries page) \<Longrightarrow> trimmed (questionText q)"
  by (auto simp: chatgpt_getQueries_def Let_def trimmed_trim split: if_splits)

lemma trimmed_queries_texts:
  "q \<in> set (trimmed_queries elements) \<Longrightarrow> trimmed (questionText q)"
  by (auto simp: trimmed_queries_def trimmed_trim)

lemma perplexity_texts:
  "q \<in> set (perplexity_getQueries page) \<Longrightarrow> trimmed (questionText q)"
  by (auto simp: perplexity_getQueries_def Let_def trimmed_queries_texts split: if_splits)

lemma claude_scan_texts:
  "\<forall>q \<in> set queries. trimmed (questionText q) \<Longrightarrow>
   q \<in> set (claude_scan page selectors queries) \<Longrightarrow> trimmed (questionText q)"
proof (induction selectors arbitrary: queries)
  case Nil
  then show ?case by simp
next
  case (Cons selector selectors)
  let ?found = "filter (\<lambda>q. questionText q \<noteq> [] \<and> length (questionText q) > 0)
                  (map (\<lambda>el. QObject (trim (textContent el)) el) (page selector))"
  have found: "\<forall>q \<in> set ?found. trimmed (questionText q)"
    by (auto simp: trimmed_trim)
  from Cons.prems(2) consider "q \<in> set ?found" | "q \<in> set (claude_scan page selectors ?found)"
    | "q \<in> set (claude_scan page selectors queries)"
    by (auto simp: Let_def split: if_splits)
  then show ?case
  proof cases
    case 1
    with found show ?thesis by blast
  next
    case 2
    with found show ?thesis by (intro Cons.IH [of ?found]) 
  next
    case 3
    with Cons.prems(1) show ?thesis by (intro Cons.IH [of queries])
  qed
qed

lemma claude_filter_subset: "set (claude_filter seen queries) \<subseteq> set queries"
  by (induction queries arbitrary: seen) (auto simp: Let_def)

lemma claude_texts:
  "q \<in> set (claude_getQueries page) \<Longrightarrow> trimmed (questionText q)"
  unfolding claude_getQueries_def
  using claude_filter_subset claude_scan_texts [of "[]" q page claude_selectors]
  by fastforce

lemma gemini_filter_subset: "set (gemini_filter seen groups) \<subseteq> set groups"
  by (induction groups arbitrary: seen) (auto simp: Let_def)

lemma container_group_texts:
  "q \<in> set (container_group c) \<Longrightarrow> \<exists>s. questionText q = normalize s \<and> normalize s \<noteq> []"
  by (auto simp: container_group_def Let_def split: if_splits)

lemma line_groups_texts:
  "q \<in> set (line_groups nodes) \<Longrightarrow> \<exists>s. questionText q = normalize s \<and> normalize s \<noteq> []"
proof (induction nodes rule: line_groups.induct)
  case 1
  then show ?case by simp
next
  case (2 e nodes)
  then show ?case
    by (auto simp: Let_def split: if_splits)
qed

lemma gemini_groups_texts:
  "q \<in> set (gemini_groups document) \<Longrightarrow> \<exists>s. questionText q = normalize s \<and> normalize s \<noteq> []"
  by (auto simp: gemini_groups_def Let_def dest: container_group_texts line_groups_texts
      split: if_splits)

lemma gemini_texts:
  assumes "q \<in> set (gemini_getQueries document)"
  shows "trimmed (questionText q) \<and> collapse_ws (questionText q) = questionText q"
proof -
  from assms have "q \<in> set (gemini_groups document)"
    unfolding gemini_getQueries_def using gemini_filter_subset by blast
  then obtain s where "questionText q = normalize s" "normalize s \<noteq> []"
    using gemini_groups_texts by blast
  then show ?thesis by (simp add: trimmed_normalize normalize_fixed)
qed

lemma trim_outer:
  "\<exists>before after. s = before @ trim s @ after \<and>
     (\<forall>c \<in> set before. is_ws c) \<and> (\<forall>c \<in> set after. is_ws c)"
proof -
  obtain zs where zs: "dropWhile is_ws s = trim s @ zs"
    and ws: "zs = rev (takeWhile is_ws (rev (dropWhile is_ws s)))"
  proof -
    let ?ys = "dropWhile is_ws s"
    have "rev (takeWhile is_ws (rev ?ys) @ dropWhile is_ws (rev ?ys)) = ?ys"
      by (simp only: takeWhile_dropWhile_id rev_rev_ident)
    then have "rev (dropWhile is_ws (rev ?ys)) @ rev (takeWhile is_ws (rev ?ys)) = ?ys"
      by (simp only: rev_append)
    then have "?ys = trim s @ rev (takeWhile is_ws (rev ?ys))"
      by (simp only: trim_def)
    then show ?thesis using that by blast
  qed
  have "s = takeWhile is_ws s @ dropWhile is_ws s"
    by simp
  then have "s = takeWhile is_ws s @ trim s @ zs"
    by (simp only: zs)
  moreover have "\<forall>c \<in> set (takeWhile is_ws s). is_ws c"
    by (auto dest: set_takeWhileD)
  moreover have "\<forall>c \<in> set zs. is_ws c"
    unfolding ws by (auto dest: set_takeWhileD)
  ultimately show ?thesis by blast
qed

lemma chatgpt_sources:
  "q \<in> set (chatgpt_getQueries page) \<Longrightarrow>
   \<exists>el \<in> set (page chatgpt_userMessage). q = QObject (trim (textContent el)) el"
  by (auto simp: chatgpt_getQueries_def Let_def split: if_splits)

lemma trimmed_queries_sources:
  "q \<in> set (trimmed_queries elements) \<Longrightarrow>
   \<exists>el \<in> set elements. q = QObject (trim (textContent el)) el"
  by (auto simp: trimmed_queries_def)

lemma perplexity_sources:
  "q \<in> set (perplexity_getQueries page) \<Longrightarrow>
   \<exists>el \<in> set (page perplexity_primary) \<union> set (page perplexity_secondary).
      q = QObject (trim (textContent el)) el"
  by (auto simp: perplexity_getQueries_def Let_def dest: trimmed_queries_sources split: if_splits)

lemma claude_scan_sources:
  "\<forall>q \<in> set queries. \<exists>selector \<in> set all. \<exists>el \<in> set (page selector). q = QObject (trim (textContent el)) el \<Longrightarrow>
   set selectors \<subseteq> set all \<Longrightarrow>
   q \<in> set (claude_scan page selectors queries) \<Longrightarrow>
   \<exists>selector \<in> set all. \<exists>el \<in> set (page selector). q = QObject (trim (textContent el)) el"
proof (induction selectors arbitrary: queries)
  case Nil
  then show ?case by simp
next
  case (Cons selector selectors)
  let ?found = "filter (\<lambda>q. questionText q \<noteq> [] \<and> length (questionText q) > 0)
                  (map (\<lambda>el. QObject (trim (textContent el)) el) (page selector))"
  from Cons.prems(2) have here: "selector \<in> set all" and rest: "set selectors \<subseteq> set all"
    by simp_all
  have found: "\<forall>q \<in> set ?found. \<exists>selector \<in> set all. \<exists>el \<in> set (page selector).
      q = QObject (trim (textContent el)) el"
    using here by auto
  from Cons.prems(3) consider "q \<in> set ?found" | "q \<in> set (claude_scan page selectors ?found)"
    | "q \<in> set (claude_scan page selectors queries)"
    by (auto simp: Let_def split: if_splits)
  then show ?case
  proof cases
    case 1
    with found show ?thesis by blast
  next
    case 2
    with found rest show ?thesis by (intro Cons.IH [of ?found])
  next
    case 3
    with Cons.prems(1) rest show ?thesis by (intro Cons.IH [of queries])
  qed
qed

lemma claude_sources:
  assumes "q \<in> set (claude_getQueries page)"
  shows "\<exists>selector \<in> set claude_selectors. \<exists>el \<in> set (page selector).
      q = QObject (trim (textContent el)) el"
proof -
  from assms have "q \<in> set (claude_scan page claude_selectors [])"
    unfolding claude_getQueries_def using claude_filter_subset by blast
  then show ?thesis
    by (intro claude_scan_sources [of "[]" claude_selectors page claude_selectors]) simp_all
qed

text \<open>
  C3, as the code has it. Every query text that an adapter returns is trimmed: it is not
  empty, neither its first nor its last character is white space (so it is not made of
  white space only), and trimming it again changes nothing. The texts of the Gemini
  adapter have, in addition, their runs of white space collapsed to single spaces. The
  ChatGPT, Perplexity and Claude adapters keep the white space inside a text as it is:
  each query they return is the trimmed text content of one of the selected elements,
  together with that element, and trimming takes nothing from a text but white space at
  its two ends.
\<close>

theorem extracted_texts_trimmed:
  "(\<forall>q \<in> set (chatgpt_getQueries chatgpt_page).
      trimmed (questionText q) \<and>
      (\<exists>el \<in> set (chatgpt_page chatgpt_userMessage). q = QObject (trim (textContent el)) el)) \<and>
   (\<forall>q \<in> set (perplexity_getQueries perplexity_page).
      trimmed (questionText q) \<and>
      (\<exists>el \<in> set (perplexity_page perplexity_primary) \<union> set (perplexity_page perplexity_secondary).
         q = QObject (trim (textContent el)) el)) \<and>
   (\<forall>q \<in> set (claude_getQueries claude_page).
      trimmed (questionText q) \<and>
      (\<exists>selector \<in> set claude_selectors. \<exists>el \<in> set (claude_page selector).
         q = QObject (trim (textContent el)) el)) \<and>
   (\<forall>q \<in> set (gemini_getQueries document).
      trimmed (questionText q) \<and> collapse_ws (questionText q) = questionText q) \<and>
   (\<exists>before after. s = before @ trim s @ after \<and>
      (\<forall>c \<in> set before. is_ws c) \<and> (\<forall>c \<in> set after. is_ws c))"
  using chatgpt_texts perplexity_texts claude_texts gemini_texts
    chatgpt_sources perplexity_sources claude_sources trim_outer [of s]
  by (intro conjI ballI) blast+

theorem extracted_texts_trimmed_witness:
  "QObject ''a  b'' (Element [] [Text '' a  b '']) \<in>
     set (chatgpt_getQueries (page_of [(chatgpt_userMessage, [Element [] [Text '' a  b '']])])) \<and>
   trimmed ''a  b'' \<and>
   QObject ''What  is HOL?'' (Element [] [Text '' What  is HOL?  '']) \<in>
     set (perplexity_getQueries (page_of [(perplexity_secondary, [Element [] [Text '' What  is HOL?  '']])])) \<and>
   trimmed ''What  is HOL?'' \<and>
   QObject ''Hello  there'' (Element [] [Text ''Hello  there '']) \<in>
     set (claude_getQueries (page_of [(''.human-message'', [Element [] [Text ''Hello  there '']])])) \<and>
   trimmed ''Hello  there'' \<and>
   QObject ''a b c'' (El [0] (Element [''user-message'']
       [Element [''query-text-line''] [Text ''a ''], Element [''query-text-line''] [Text '' b''],
        Element [''query-text-line''] [Text ''c'']]) None) \<in>
     set (gemini_getQueries (Element [] [Element [''user-message'']
       [Element [''query-text-line''] [Text ''a ''], Element [''query-text-line''] [Text '' b''],
        Element [''query-text-line''] [Text ''c'']]])) \<and>
   trimmed ''a b c'' \<and> collapse_ws ''a b c'' = ''a b c'' \<and>
   (\<exists>el \<in> set (page_of [(chatgpt_userMessage, [Element [] [Text '' a  b '']])] chatgpt_userMessage).
      QObject ''a  b'' (Element [] [Text '' a  b '']) = QObject (trim (textContent el)) el) \<and>
   (\<exists>el \<in> set (page_of [(perplexity_secondary, [Element [] [Text '' What  is HOL?  '']])] perplexity_primary) \<union>
        set (page_of [(perplexity_secondary, [Element [] [Text '' What  is HOL?  '']])] perplexity_secondary).
      QObject ''What  is HOL?'' (Element [] [Text '' What  is HOL?  '']) = QObject (trim (textContent el)) el) \<and>
   (\<exists>selector \<in> set claude_selectors.
      \<exists>el \<in> set (page_of [(''.human-message'', [Element [] [Text ''Hello  there '']])] selector).
        QObject ''Hello  there'' (Element [] [Text ''Hello  there '']) = QObject (trim (textContent el)) el) \<and>
   (\<exists>before after. '' a  b '' = before @ ''a  b'' @ after \<and>
      (\<forall>c \<in> set before. is_ws c) \<and> (\<forall>c \<in> set after. is_ws c))"
proof -
  let ?p1 = "page_of [(chatgpt_userMessage, [Element [] [Text '' a  b '']])]"
  let ?p2 = "page_of [(perplexity_secondary, [Element [] [Text '' What  is HOL?  '']])]"
  let ?p3 = "page_of [(''.human-message'', [Element [] [Text ''Hello  there '']])]"
  let ?d = "Element [] [Element [''user-message'']
       [Element [''query-text-line''] [Text ''a ''], Element [''query-text-line''] [Text '' b''],
        Element [''query-text-line''] [Text ''c'']]]"
  let ?q1 = "QObject ''a  b'' (Element [] [Text '' a  b ''])"
  let ?q2 = "QObject ''What  is HOL?'' (Element [] [Text '' What  is HOL?  ''])"
  let ?q3 = "QObject ''Hello  there'' (Element [] [Text ''Hello  there ''])"
  let ?q4 = "QObject ''a b c'' (El [0] (Element [''user-message'']
       [Element [''query-text-line''] [Text ''a ''], Element [''query-text-line''] [Text '' b''],
        Element [''query-text-line''] [Text ''c'']]) None)"
  note law = extracted_texts_trimmed [of ?p1 ?p2 ?p3 ?d "'' a  b ''"]
  have m1: "?q1 \<in> set (chatgpt_getQueries ?p1)" by code_simp
  have m2: "?q2 \<in> set (perplexity_getQueries ?p2)" by code_simp
  have m3: "?q3 \<in> set (claude_getQueries ?p3)" by code_simp
  have m4: "?q4 \<in> set (gemini_getQueries ?d)" by code_simp
  have t: "trim '' a  b '' = ''a  b''" by code_simp
  from law m1 have t1: "trimmed (questionText ?q1)"
    and s1: "\<exists>el \<in> set (?p1 chatgpt_userMessage). ?q1 = QObject (trim (textContent el)) el"
    by blast+
  from law m2 have t2: "trimmed (questionText ?q2)"
    and s2: "\<exists>el \<in> set (?p2 perplexity_primary) \<union> set (?p2 perplexity_secondary).
      ?q2 = QObject (trim (textContent el)) el"
    by blast+
  from law m3 have t3: "trimmed (questionText ?q3)"
    and s3: "\<exists>selector \<in> set claude_selectors. \<exists>el \<in> set (?p3 selector).
      ?q3 = QObject (trim (textContent el)) el"
    by blast+
  from law m4
  have t4: "trimmed (questionText ?q4) \<and> collapse_ws (questionText ?q4) = questionText ?q4"
    by blast
  from law have "\<exists>before after. '' a  b '' = before @ trim '' a  b '' @ after \<and>
      (\<forall>c \<in> set before. is_ws c) \<and> (\<forall>c \<in> set after. is_ws c)"
    by (elim conjE)
  then have o: "\<exists>before after. '' a  b '' = before @ ''a  b'' @ after \<and>
      (\<forall>c \<in> set before. is_ws c) \<and> (\<forall>c \<in> set after. is_ws c)"
    by (simp only: t)
  from t1 t2 t3 t4 have texts: "trimmed ''a  b'' \<and> trimmed ''What  is HOL?'' \<and>
      trimmed ''Hello  there'' \<and> trimmed ''a b c'' \<and> collapse_ws ''a b c'' = ''a b c''"
    by simp
  from m1 m2 m3 m4 texts s1 s2 s3 o show ?thesis by blast
qed

text \<open>
  The claim as it is worded has every adapter collapse the white space. A ChatGPT message
  with two spaces between \<open>a\<close> and \<open>b\<close> is returned with both.
\<close>

theorem extracted_texts_counterexample:
  "chatgpt_getQueries (page_of [(chatgpt_userMessage, [Element [] [Text '' a  b '']])]) =
     [QObject ''a  b'' (Element [] [Text '' a  b ''])] \<and>
   normalize ''a  b'' \<noteq> ''a  b''"
  by code_simp

section \<open>Claude: duplicates\<close>


lemma claude_filter_append:
  "claude_filter seen (xs @ ys) =
     claude_filter seen xs @ claude_filter (seen \<union> key100 ` set xs) ys"
proof (induction xs arbitrary: seen)
  case Nil
  then show ?case by simp
next
  case (Cons x xs)
  have a: "insert (key100 x) seen \<union> key100 ` set xs = seen \<union> key100 ` set (x # xs)"
    by auto
  have b: "key100 x \<in> seen \<Longrightarrow> seen \<union> key100 ` set xs = seen \<union> key100 ` set (x # xs)"
    by auto
  show ?case
  proof (cases "key100 x \<in> seen")
    case True
    then have "claude_filter seen ((x # xs) @ ys) = claude_filter seen (xs @ ys)" by simp
    also have "\<dots> = claude_filter seen xs @ claude_filter (seen \<union> key100 ` set xs) ys"
      by (rule Cons.IH)
    also have "claude_filter seen xs = claude_filter seen (x # xs)" using True by simp
    finally show ?thesis using b [OF True] by (simp only:)
  next
    case False
    then have "claude_filter seen ((x # xs) @ ys) = x # claude_filter (insert (key100 x) seen) (xs @ ys)"
      by simp
    also have "claude_filter (insert (key100 x) seen) (xs @ ys) =
        claude_filter (insert (key100 x) seen) xs @
        claude_filter (insert (key100 x) seen \<union> key100 ` set xs) ys"
      by (rule Cons.IH)
    finally have "claude_filter seen ((x # xs) @ ys) =
        (x # claude_filter (insert (key100 x) seen) xs) @
        claude_filter (insert (key100 x) seen \<union> key100 ` set xs) ys"
      by simp
    moreover have "x # claude_filter (insert (key100 x) seen) xs = claude_filter seen (x # xs)"
      using False by simp
    ultimately show ?thesis using a by (simp only:)
  qed
qed

lemma claude_filter_keys:
  "key100 ` set (claude_filter seen queries) = key100 ` set queries - seen"
proof (induction queries arbitrary: seen)
  case Nil
  then show ?case by simp
next
  case (Cons q queries)
  show ?case
  proof (cases "key100 q \<in> seen")
    case True
    then have "claude_filter seen (q # queries) = claude_filter seen queries" by simp
    with Cons [of seen] True show ?thesis by auto
  next
    case False
    then have "claude_filter seen (q # queries) = q # claude_filter (insert (key100 q) seen) queries"
      by simp
    with Cons [of "insert (key100 q) seen"] False show ?thesis by auto
  qed
qed

lemma claude_filter_distinct:
  "distinct (map key100 (claude_filter seen queries))"
proof (induction queries arbitrary: seen)
  case Nil
  then show ?case by simp
next
  case (Cons q queries)
  have fresh: "key100 q \<notin> key100 ` set (claude_filter (insert (key100 q) seen) queries)"
    by (simp only: claude_filter_keys) simp
  show ?case
  proof (cases "key100 q \<in> seen")
    case True
    with Cons [of seen] show ?thesis by simp
  next
    case False
    with Cons [of "insert (key100 q) seen"] fresh show ?thesis by simp
  qed
qed

lemma claude_filter_seen:
  "key100 q \<in> seen \<Longrightarrow> claude_filter seen (q # queries) = claude_filter seen queries"
  by simp

lemma claude_filter_later_duplicate:
  assumes "key100 a = key100 b"
  shows "claude_filter seen (pre @ a # mid @ b # post) = claude_filter seen (pre @ a # mid @ post)"
proof -
  have member: "key100 b \<in> seen \<union> key100 ` set (pre @ a # mid)"
    using assms by simp
  have "claude_filter seen ((pre @ a # mid) @ b # post) =
        claude_filter seen (pre @ a # mid) @ claude_filter (seen \<union> key100 ` set (pre @ a # mid)) (b # post)"
    by (rule claude_filter_append)
  also have "claude_filter (seen \<union> key100 ` set (pre @ a # mid)) (b # post) =
        claude_filter (seen \<union> key100 ` set (pre @ a # mid)) post"
    using member by (rule claude_filter_seen)
  also have "claude_filter seen (pre @ a # mid) @ claude_filter (seen \<union> key100 ` set (pre @ a # mid)) post =
        claude_filter seen ((pre @ a # mid) @ post)"
    by (rule claude_filter_append [symmetric])
  finally show ?thesis by simp
qed

lemma claude_filter_first:
  assumes "key100 q \<notin> seen \<union> key100 ` set pre"
  shows "claude_filter seen (pre @ q # post) =
     claude_filter seen pre @ q # claude_filter (insert (key100 q) (seen \<union> key100 ` set pre)) post"
proof -
  have "claude_filter seen (pre @ q # post) =
      claude_filter seen pre @ claude_filter (seen \<union> key100 ` set pre) (q # post)"
    by (rule claude_filter_append)
  moreover have "claude_filter (seen \<union> key100 ` set pre) (q # post) =
      q # claude_filter (insert (key100 q) (seen \<union> key100 ` set pre)) post"
    using assms by (simp del: Un_iff)
  ultimately show ?thesis by (simp only:)
qed

text \<open>
  C2, as the code has it. The Claude adapter compares the first 100 characters of the
  trimmed texts as they are, with their case. The keys of the returned queries are
  pairwise different and are the keys of the extracted queries. Of two extracted queries
  with the same key the later one has no effect on the result, and a query whose key no
  earlier query has is returned, after what the queries before it give.
\<close>

theorem claude_dedup:
  "distinct (map (\<lambda>q. take 100 (questionText q)) (claude_getQueries page)) \<and>
   (\<lambda>q. take 100 (questionText q)) ` set (claude_getQueries page) =
     (\<lambda>q. take 100 (questionText q)) ` set (claude_scan page claude_selectors []) \<and>
   (\<forall>pre a mid b post.
      claude_scan page claude_selectors [] = pre @ a # mid @ b # post \<and>
      take 100 (questionText a) = take 100 (questionText b) \<longrightarrow>
      claude_getQueries page = claude_filter {} (pre @ a # mid @ post)) \<and>
   (\<forall>pre q post.
      claude_scan page claude_selectors [] = pre @ q # post \<and>
      take 100 (questionText q) \<notin> (\<lambda>q. take 100 (questionText q)) ` set pre \<longrightarrow>
      (\<exists>rest. claude_getQueries page = claude_filter {} pre @ q # rest))"
proof (intro conjI allI impI)
  show "distinct (map key100 (claude_getQueries page))"
    unfolding claude_getQueries_def by (rule claude_filter_distinct)
  show "key100 ` set (claude_getQueries page) = key100 ` set (claude_scan page claude_selectors [])"
    unfolding claude_getQueries_def by (simp only: claude_filter_keys Diff_empty)
next
  fix pre a mid b post
  assume "claude_scan page claude_selectors [] = pre @ a # mid @ b # post \<and> key100 a = key100 b"
  then show "claude_getQueries page = claude_filter {} (pre @ a # mid @ post)"
    unfolding claude_getQueries_def by (simp only: claude_filter_later_duplicate)
next
  fix pre q post
  assume a: "claude_scan page claude_selectors [] = pre @ q # post \<and> key100 q \<notin> key100 ` set pre"
  then have "key100 q \<notin> {} \<union> key100 ` set pre" by simp
  then have "claude_filter {} (pre @ q # post) =
     claude_filter {} pre @ q # claude_filter (insert (key100 q) ({} \<union> key100 ` set pre)) post"
    by (rule claude_filter_first)
  with a show "\<exists>rest. claude_getQueries page = claude_filter {} pre @ q # rest"
    unfolding claude_getQueries_def by (simp only:) blast
qed

lemma claude_example:
  "claude_scan (page_of [(''.human-message'', [Element [] [Text ''Hello''], Element [] [Text '' hello  '']])])
      claude_selectors [] =
     [QObject ''Hello'' (Element [] [Text ''Hello'']), QObject ''hello'' (Element [] [Text '' hello  ''])]"
  "claude_getQueries (page_of [(''.human-message'', [Element [] [Text ''Hello''], Element [] [Text '' hello  '']])]) =
     [QObject ''Hello'' (Element [] [Text ''Hello'']), QObject ''hello'' (Element [] [Text '' hello  ''])]"
  "toLowerCase (take 100 ''Hello'') = toLowerCase (take 100 ''hello'')"
  by code_simp+

text \<open>
  The claim as it is worded compares without regard to case. Two messages, \<open>Hello\<close> and
  \<open>hello\<close>, have the same first 100 characters up to case, and both are returned.
\<close>

theorem claude_dedup_counterexample:
  "toLowerCase (take 100 (questionText (QObject ''Hello'' (Element [] [Text ''Hello''])))) =
   toLowerCase (take 100 (questionText (QObject ''hello'' (Element [] [Text '' hello  ''])))) \<and>
   claude_getQueries (page_of [(''.human-message'',
       [Element [] [Text ''Hello''], Element [] [Text '' hello  '']])]) =
     [QObject ''Hello'' (Element [] [Text ''Hello'']), QObject ''hello'' (Element [] [Text '' hello  ''])]"
  using claude_example by simp

theorem claude_dedup_witness:
  "claude_scan (page_of [(''.human-message'',
       [Element [] [Text ''Explain recursion''], Element [] [Text ''And induction''],
        Element [] [Text ''  Explain recursion'']])]) claude_selectors [] =
     [QObject ''Explain recursion'' (Element [] [Text ''Explain recursion'']),
      QObject ''And induction'' (Element [] [Text ''And induction'']),
      QObject ''Explain recursion'' (Element [] [Text ''  Explain recursion''])] \<and>
   claude_getQueries (page_of [(''.human-message'',
       [Element [] [Text ''Explain recursion''], Element [] [Text ''And induction''],
        Element [] [Text ''  Explain recursion'']])]) =
     [QObject ''Explain recursion'' (Element [] [Text ''Explain recursion'']),
      QObject ''And induction'' (Element [] [Text ''And induction''])]"
proof -
  let ?page = "page_of [(''.human-message'',
       [Element [] [Text ''Explain recursion''], Element [] [Text ''And induction''],
        Element [] [Text ''  Explain recursion'']])]"
  let ?a = "QObject ''Explain recursion'' (Element [] [Text ''Explain recursion''])"
  let ?m = "QObject ''And induction'' (Element [] [Text ''And induction''])"
  let ?b = "QObject ''Explain recursion'' (Element [] [Text ''  Explain recursion''])"
  have scan: "claude_scan ?page claude_selectors [] = [?a, ?m, ?b]"
    by code_simp
  then have split: "claude_scan ?page claude_selectors [] = [] @ ?a # [?m] @ ?b # []"
    by simp
  have same: "take 100 (questionText ?a) = take 100 (questionText ?b)"
    by simp
  from claude_dedup [of ?page]
  have "\<forall>pre a mid b post.
      claude_scan ?page claude_selectors [] = pre @ a # mid @ b # post \<and>
      take 100 (questionText a) = take 100 (questionText b) \<longrightarrow>
      claude_getQueries ?page = claude_filter {} (pre @ a # mid @ post)"
    by (elim conjE)
  with split same have "claude_getQueries ?page = claude_filter {} ([] @ ?a # [?m] @ [])"
    by blast
  also have "\<dots> = [?a, ?m]"
    by (simp add: Let_def)
  finally show ?thesis using scan by simp
qed

section \<open>Gemini: the page as a tree\<close>

lemma node_of_elements:
  "map node_of (subtree_elements p prev n) = elements_of n"
  "map node_of (child_elements p i prev ks) = concat (map elements_of ks)"
  by (induction p prev n and p i prev ks rule: subtree_elements_child_elements.induct) simp_all

lemma node_of_line_handles:
  "map node_of (line_handles es) = filter is_line (map node_of es)"
  by (induction es) (simp_all add: contains_class_def is_line_def)

lemma line_handles_empty:
  "line_handles es = [] \<longleftrightarrow> filter is_line (map node_of es) = []"
  using node_of_line_handles [of es] by (metis map_is_Nil_conv)

lemma lines_of_subtree:
  "line_handles (subtree_elements p prev n) = [] \<longleftrightarrow> lines_within n = []"
  by (simp only: line_handles_empty node_of_elements lines_within_def)

lemma lines_of_children:
  "line_handles (child_elements p 0 None ks) = [] \<longleftrightarrow> lines_below (Element cs ks) = []"
  by (simp add: line_handles_empty node_of_elements lines_below_def)

lemma flat_lines_children:
  assumes "flat_lines (Element cs ks)" and "k \<in> set ks"
  shows "flat_lines k"
proof -
  from assms(2) have "set (elements_of k) \<subseteq> set (elements_of (Element cs ks))"
    by auto
  then have "set (lines_within k) \<subseteq> set (lines_within (Element cs ks))"
    unfolding lines_within_def by auto
  with assms(1) show ?thesis
    unfolding flat_lines_def list_all_iff by blast
qed

lemma flat_line_no_lines_below:
  "flat_lines n \<Longrightarrow> is_line n \<Longrightarrow> lines_below n = []"
  by (cases n) (auto simp: flat_lines_def lines_within_def is_line_def list_all_iff)

subsection \<open>Places of the handles\<close>

lemma handle_paths:
  "e \<in> set (subtree_elements p prev n) \<Longrightarrow> \<exists>r. path e = p @ r"
  "e \<in> set (child_elements p i prev ks) \<Longrightarrow> \<exists>j r. i \<le> j \<and> path e = p @ j # r"
proof (induction p prev n and p i prev ks arbitrary: e and e rule: subtree_elements_child_elements.induct)
  case (1 p prev s)
  then show ?case by simp
next
  case (2 p prev classes children)
  then show ?case by fastforce
next
  case (3 p i prev)
  then show ?case by simp
next
  case (4 p i prev child children)
  from "4.prems" consider "e \<in> set (subtree_elements (p @ [i]) prev child)"
    | "e \<in> set (child_elements p (Suc i)
          (case child of Text s \<Rightarrow> prev | Element cs ks \<Rightarrow> Some (El (p @ [i]) child prev)) children)"
    by auto
  then show ?case
  proof cases
    case 1
    then obtain r where "path e = (p @ [i]) @ r" using "4.IH"(1) by blast
    then show ?thesis by auto
  next
    case 2
    then obtain j r where "Suc i \<le> j" "path e = p @ j # r" using "4.IH"(2) by blast
    then show ?thesis by (intro exI [of _ j] exI [of _ r]) simp
  qed
qed

lemma child_parent: "parentElement (El (p @ [i]) n prev) = Some p"
  by (simp add: parentElement_def)

lemma deeper_parent:
  assumes "e \<in> set (child_elements (p @ [i]) j prev ks)"
  shows "\<exists>r. parentElement e = Some (p @ i # r)"
proof -
  from assms obtain k r where "path e = (p @ [i]) @ k # r"
    using handle_paths(2) by blast
  then have "parentElement e = Some (p @ i # butlast (k # r))"
    by (simp add: parentElement_def butlast_append)
  then show ?thesis by blast
qed

lemma deeper_not_same_run:
  assumes "parentElement h = Some p" and "e \<in> set (child_elements (p @ [i]) j prev ks)"
  shows "\<not> same_run h e"
  using deeper_parent [OF assms(2)] assms(1) by (auto simp: same_run_def)

lemma outside_not_same_run:
  assumes "parentElement h = Some p" and "outside p e"
  shows "\<not> same_run h e"
  using assms by (auto simp: same_run_def outside_def)

lemma outside_deeper:
  assumes "outside p e"
  shows "outside (p @ [i]) e"
proof (cases "parentElement e")
  case None
  then show ?thesis by (simp add: outside_def)
next
  case (Some q)
  with assms have differ: "take (length p) q \<noteq> p" by (simp add: outside_def)
  have "take (length (p @ [i])) q \<noteq> p @ [i]"
  proof
    assume "take (length (p @ [i])) q = p @ [i]"
    then have "take (length p) (take (length (p @ [i])) q) = take (length p) (p @ [i])"
      by simp
    then have "take (length p) q = p" by simp
    with differ show False by simp
  qed
  with Some show ?thesis by (simp add: outside_def)
qed

lemma later_sibling_outside:
  assumes "e \<in> set (child_elements p (Suc i) prev ks)"
  shows "outside (p @ [i]) e"
proof -
  from assms obtain j r where j: "Suc i \<le> j" and e: "path e = p @ j # r"
    using handle_paths(2) by blast
  then have "parentElement e = Some (p @ butlast (j # r))"
    by (simp add: parentElement_def butlast_append)
  moreover have "take (length (p @ [i])) (p @ butlast (j # r)) \<noteq> p @ [i]"
    using j by (cases r) auto
  ultimately show ?thesis by (simp add: outside_def)
qed

subsection \<open>The loop over the line nodes\<close>

lemma merged_append: "merged (xs @ ys) = merged xs @ merged ys"
  by (simp add: merged_def)

lemma merged_Cons: "merged (run # runs) = merged [run] @ merged runs"
  by (simp add: merged_def)

lemma line_groups_head:
  assumes "contains_class h ''query-text-line''" and "\<not> after_line h"
    and "\<forall>x \<in> set taken. same_run h x" and "rest = [] \<or> \<not> same_run h (hd rest)"
  shows "map questionText (line_groups (h # taken @ rest)) =
     merged [handle_text h # map handle_text taken] @ map questionText (line_groups rest)"
proof -
  from assms(4) have stop: "takeWhile (same_run h) rest = []" "dropWhile (same_run h) rest = rest"
    by (cases rest; auto)+
  from assms(3) have t: "takeWhile (same_run h) (taken @ rest) = taken"
    by (simp add: takeWhile_append2 stop)
  from assms(3) have d: "dropWhile (same_run h) (taken @ rest) = rest"
    by (simp add: dropWhile_append2 stop)
  from assms(1,2) show ?thesis
    by (simp add: Let_def t d merged_def del: join.simps)
qed

lemma runs_refine:
  "flat_lines n \<Longrightarrow> \<forall>e \<in> set rest. outside p e \<Longrightarrow>
     map questionText (line_groups (line_handles (tl (subtree_elements p prev n)) @ rest)) =
       merged (line_runs n) @ map questionText (line_groups rest)"
  "\<forall>k \<in> set ks. flat_lines k \<Longrightarrow> \<forall>e \<in> set rest. outside p e \<Longrightarrow>
     (run = [] \<longrightarrow> \<not> prev_line prev \<longrightarrow>
        map questionText (line_groups (line_handles (child_elements p i prev ks) @ rest)) =
          merged (child_runs [] ks) @ map questionText (line_groups rest)) \<and>
     (\<forall>h taken. run = handle_text h # map handle_text taken \<longrightarrow>
        contains_class h ''query-text-line'' \<longrightarrow> \<not> after_line h \<longrightarrow> parentElement h = Some p \<longrightarrow>
        (\<forall>x \<in> set taken. same_run h x) \<longrightarrow>
        map questionText (line_groups (h # taken @ line_handles (child_elements p i prev ks) @ rest)) =
          merged (child_runs run ks) @ map questionText (line_groups rest))"
proof (induction n and run ks arbitrary: p prev rest and p i prev rest rule: line_runs_child_runs.induct)
  case (1 s)
  show ?case by (simp add: merged_def)
next
  case (2 classes children)
  from "2.prems"(1) have flat: "\<forall>k \<in> set children. flat_lines k"
    using flat_lines_children by blast
  have "\<not> prev_line None" by (simp add: prev_line_def)
  with "2.IH" [OF flat "2.prems"(2), where i = 0 and prev = None] show ?case
    by (simp del: line_groups.simps)
next
  case (3 run)
  show ?case
  proof (intro conjI impI allI)
    show "map questionText (line_groups (line_handles (child_elements p i prev []) @ rest)) =
        merged (child_runs [] []) @ map questionText (line_groups rest)"
      by (simp add: merged_def)
  next
    fix h taken
    assume run: "run = handle_text h # map handle_text taken"
      and h: "contains_class h ''query-text-line''" "\<not> after_line h" "parentElement h = Some p"
      and taken: "\<forall>x \<in> set taken. same_run h x"
    from "3.prems"(2) h(3) have "rest = [] \<or> \<not> same_run h (hd rest)"
      using outside_not_same_run [of h p] by (cases rest) auto
    with h taken have "map questionText (line_groups (h # taken @ rest)) =
        merged [handle_text h # map handle_text taken] @ map questionText (line_groups rest)"
      by (intro line_groups_head)
    with run show "map questionText (line_groups (h # taken @ line_handles (child_elements p i prev []) @ rest)) =
        merged (child_runs run []) @ map questionText (line_groups rest)"
      by (simp del: line_groups.simps)
  qed
next
  case (4 run child children)
  from "4.prems"(1) have flat_child: "flat_lines child"
    and flat_children: "\<forall>k \<in> set children. flat_lines k"
    by simp_all
  note outside_rest = "4.prems"(2)
  show ?case
  proof (cases child)
    case (Text s)
    have plain: "\<not> is_line child" "lines_within child = []"
      by (simp_all add: Text is_line_def lines_within_def)
    have same: "child_elements p i prev (child # children) = child_elements p (Suc i) prev children"
      by (simp add: Text)
    have runs: "child_runs r (child # children) = child_runs r children" for r
      by (simp add: plain)
    from "4.IH"(2) [OF plain flat_children outside_rest, where prev = prev and i = "Suc i"]
    show ?thesis by (simp only: same runs)
  next
    case (Element cs kk)
    let ?e = "El (p @ [i]) child prev"
    let ?inner = "line_handles (child_elements (p @ [i]) 0 None kk)"
    let ?later = "line_handles (child_elements p (Suc i) (Some ?e) children)"
    have split: "line_handles (child_elements p i prev (child # children)) =
        line_handles [?e] @ ?inner @ ?later"
      by (simp add: Element)
    have line_e: "contains_class ?e ''query-text-line'' \<longleftrightarrow> is_line child"
      by (simp add: contains_class_def is_line_def)
    have parent_e: "parentElement ?e = Some p"
      by (rule child_parent)
    have inner_empty: "?inner = [] \<longleftrightarrow> lines_below child = []"
      unfolding Element by (rule lines_of_children)
    show ?thesis
    proof (cases "is_line child")
      case True
      with flat_child have "lines_below child = []"
        by (intro flat_line_no_lines_below)
      with inner_empty have inner: "?inner = []" by simp
      from True line_e have handles: "line_handles (child_elements p i prev (child # children)) = ?e # ?later"
        by (simp only: split inner) simp
      have runs: "child_runs r (child # children) = child_runs (r @ [textContent child]) children" for r
        by (simp add: True)
      note IH = "4.IH"(1) [OF True flat_children outside_rest, where prev = "Some ?e" and i = "Suc i"]
      show ?thesis
      proof (intro conjI impI allI)
        assume "run = []" and closed: "\<not> prev_line prev"
        from closed have first: "\<not> after_line ?e"
          by (auto simp: after_line_def prev_line_def split: option.splits)
        have "map questionText (line_groups (?e # [] @ ?later @ rest)) =
            merged (child_runs (run @ [textContent child]) children) @ map questionText (line_groups rest)"
          using True line_e first parent_e \<open>run = []\<close>
          by (intro IH [THEN conjunct2, rule_format]) simp_all
        with \<open>run = []\<close>
        show "map questionText (line_groups (line_handles (child_elements p i prev (child # children)) @ rest)) =
            merged (child_runs [] (child # children)) @ map questionText (line_groups rest)"
          by (simp only: handles runs) (simp del: line_groups.simps)
      next
        fix h taken
        assume run: "run = handle_text h # map handle_text taken"
          and h: "contains_class h ''query-text-line''" "\<not> after_line h" "parentElement h = Some p"
          and taken: "\<forall>x \<in> set taken. same_run h x"
        from True line_e h(3) parent_e have "same_run h ?e"
          by (simp add: same_run_def)
        with taken have taken': "\<forall>x \<in> set (taken @ [?e]). same_run h x"
          by simp
        from run have run': "run @ [textContent child] = handle_text h # map handle_text (taken @ [?e])"
          by simp
        have "map questionText (line_groups (h # (taken @ [?e]) @ ?later @ rest)) =
            merged (child_runs (run @ [textContent child]) children) @ map questionText (line_groups rest)"
          using run' h taken' by (intro IH [THEN conjunct2, rule_format]) (assumption | blast)+
        then show "map questionText
              (line_groups (h # taken @ line_handles (child_elements p i prev (child # children)) @ rest)) =
            merged (child_runs run (child # children)) @ map questionText (line_groups rest)"
          by (simp only: handles runs) (simp del: line_groups.simps)
      qed
    next
      case False
      with line_e have no_e: "line_handles [?e] = []" by simp
      from False line_e have after: "\<not> prev_line (Some ?e)"
        by (simp add: prev_line_def)
      show ?thesis
      proof (cases "lines_within child = []")
        case True
        with False have "lines_below child = []"
          by (simp add: lines_within_def lines_below_def Element)
        with inner_empty have inner: "?inner = []" by simp
        have handles: "line_handles (child_elements p i prev (child # children)) = ?later"
          by (simp only: split no_e inner append_Nil)
        have runs: "child_runs r (child # children) = child_runs r children" for r
          by (simp add: False True)
        note IH = "4.IH"(2) [OF False True flat_children outside_rest, where prev = "Some ?e" and i = "Suc i"]
        from IH after show ?thesis
          by (simp only: handles runs) (simp del: line_groups.simps)
      next
        case lines: False
        with False have "lines_below child \<noteq> []"
          by (simp add: lines_within_def lines_below_def Element)
        with inner_empty have inner: "?inner \<noteq> []" by simp
        have handles: "line_handles (child_elements p i prev (child # children)) = ?inner @ ?later"
          by (simp only: split no_e append_Nil)
        have runs: "child_runs r (child # children) =
            (if r = [] then [] else [r]) @ line_runs child @ child_runs [] children" for r
          by (simp add: False lines)
        have "\<forall>x \<in> set (?later @ rest). outside (p @ [i]) x"
          using outside_rest by (auto intro: outside_deeper later_sibling_outside)
        from "4.IH"(3) [OF False lines flat_child this, where prev = prev]
        have below: "map questionText (line_groups (?inner @ ?later @ rest)) =
            merged (line_runs child) @ map questionText (line_groups (?later @ rest))"
          by (simp add: Element del: line_groups.simps)
        have next_runs: "map questionText (line_groups (?later @ rest)) =
            merged (child_runs [] children) @ map questionText (line_groups rest)"
          using after
          by (intro "4.IH"(4) [OF False lines flat_children outside_rest, THEN conjunct1, rule_format]) simp_all
        show ?thesis
        proof (intro conjI impI allI)
          assume "run = []"
          show "map questionText (line_groups (line_handles (child_elements p i prev (child # children)) @ rest)) =
              merged (child_runs [] (child # children)) @ map questionText (line_groups rest)"
            by (simp only: handles runs) (simp add: below next_runs merged_append del: line_groups.simps)
        next
          fix h taken
          assume run: "run = handle_text h # map handle_text taken"
            and h: "contains_class h ''query-text-line''" "\<not> after_line h" "parentElement h = Some p"
            and taken: "\<forall>x \<in> set taken. same_run h x"
          from inner have "hd (?inner @ ?later @ rest) = hd ?inner"
            by (rule hd_append2)
          moreover from inner have "hd ?inner \<in> set ?inner"
            by (rule hd_in_set)
          moreover have "set ?inner \<subseteq> set (child_elements (p @ [i]) 0 None kk)"
            by (rule filter_is_subset)
          ultimately have "hd (?inner @ ?later @ rest) \<in> set (child_elements (p @ [i]) 0 None kk)"
            by (simp only: subsetD)
          with h(3) have "\<not> same_run h (hd (?inner @ ?later @ rest))"
            by (rule deeper_not_same_run)
          with h taken have "map questionText (line_groups (h # taken @ ?inner @ ?later @ rest)) =
              merged [handle_text h # map handle_text taken] @
              map questionText (line_groups (?inner @ ?later @ rest))"
            by (intro line_groups_head) simp_all
          with run have "map questionText (line_groups (h # taken @ ?inner @ ?later @ rest)) =
              merged [run] @ merged (line_runs child) @ merged (child_runs [] children) @
              map questionText (line_groups rest)"
            by (simp only: below next_runs)
          moreover from run have "run \<noteq> []" by simp
          ultimately show "map questionText
                (line_groups (h # taken @ line_handles (child_elements p i prev (child # children)) @ rest)) =
              merged (child_runs run (child # children)) @ map questionText (line_groups rest)"
            by (simp only: handles runs)
               (simp add: merged_append merged_Cons [of run "line_runs child @ child_runs [] children"]
                  del: line_groups.simps)
        qed
      qed
    qed
  qed
qed

subsection \<open>A page without containers\<close>

lemma containers_handles:
  "map node_of (querySelectorAll document [''user-message'', ''query'']) = containers document"
proof -
  have "map node_of (filter (matches [''user-message'', ''query'']) es) =
      filter is_container (map node_of es)" for es
    by (induction es) (auto simp: matches_def contains_class_def is_container_def)
  then show ?thesis
    by (simp only: querySelectorAll_def containers_def node_of_elements)
qed

lemma no_containers_nodes:
  assumes "containers document = []"
  shows "querySelectorAll document [''user-message'', ''query''] = []"
    and "querySelectorAll document gemini_userMessage = line_handles (subtree_elements [] None document)"
proof -
  from assms show none: "querySelectorAll document [''user-message'', ''query''] = []"
    using containers_handles [of document] by simp
  then have "\<forall>e \<in> set (subtree_elements [] None document). \<not> matches [''user-message'', ''query''] e"
    by (simp add: querySelectorAll_def filter_empty_conv)
  then have "filter (matches gemini_userMessage) (subtree_elements [] None document) =
      line_handles (subtree_elements [] None document)"
    by (intro filter_cong) (auto simp: matches_def gemini_userMessage_def)
  then show "querySelectorAll document gemini_userMessage = line_handles (subtree_elements [] None document)"
    by (simp only: querySelectorAll_def)
qed

lemma fallback_groups:
  assumes "containers document = []" and "flat_lines document"
  shows "map questionText (gemini_groups document) = merged (page_runs document)"
proof -
  have groups: "gemini_groups document = line_groups (line_handles (subtree_elements [] None document))"
    using no_containers_nodes [OF assms(1)] by (simp add: gemini_groups_def Let_def)
  show ?thesis
  proof (cases document)
    case (Text s)
    from groups have "gemini_groups document = []"
      by (simp add: Text)
    moreover have "merged (page_runs document) = []"
      by (simp add: Text page_runs_def is_line_def merged_def)
    ultimately show ?thesis
      by simp
  next
    case (Element cs kk)
    let ?root = "El [] document None"
    have handles: "subtree_elements [] None document = ?root # child_elements [] 0 None kk"
      by (simp add: Element)
    have line_root: "contains_class ?root ''query-text-line'' \<longleftrightarrow> is_line document"
      by (simp add: contains_class_def is_line_def)
    show ?thesis
    proof (cases "is_line document")
      case True
      with assms(2) have "lines_below document = []"
        by (intro flat_line_no_lines_below)
      then have "line_handles (child_elements [] 0 None kk) = []"
        unfolding Element using lines_of_children [of "[]" kk cs] by blast
      with True line_root have nodes: "line_handles (subtree_elements [] None document) = ?root # [] @ []"
        by (simp add: handles)
      have "\<not> after_line ?root"
        by (simp add: after_line_def)
      with True line_root
      have "map questionText (line_groups (?root # [] @ [])) =
          merged [handle_text ?root # map handle_text []] @ map questionText (line_groups [])"
        by (intro line_groups_head) simp_all
      with True show ?thesis
        by (simp only: groups nodes page_runs_def) simp
    next
      case False
      with line_root have nodes: "line_handles (subtree_elements [] None document) =
          line_handles (tl (subtree_elements [] None document)) @ []"
        by (simp add: handles)
      have "map questionText (line_groups (line_handles (tl (subtree_elements [] None document)) @ [])) =
          merged (line_runs document) @ map questionText (line_groups [])"
        using assms(2) by (intro runs_refine(1)) simp_all
      with False show ?thesis
        by (simp only: groups nodes page_runs_def) simp
    qed
  qed
qed

subsection \<open>Where a query starts\<close>

lemma sibling_parent:
  "e \<in> set (subtree_elements p prev n) \<Longrightarrow>
     (\<forall>pr. prev = Some pr \<longrightarrow> parentElement pr = parentElement (El p n prev)) \<Longrightarrow>
     previousElementSibling e = Some before \<Longrightarrow> parentElement before = parentElement e"
  "e \<in> set (child_elements p i prev ks) \<Longrightarrow>
     (\<forall>pr. prev = Some pr \<longrightarrow> parentElement pr = Some p) \<Longrightarrow>
     previousElementSibling e = Some before \<Longrightarrow> parentElement before = parentElement e"
proof (induction p prev n and p i prev ks arbitrary: e before and e before
    rule: subtree_elements_child_elements.induct)
  case (1 p prev s)
  then show ?case by simp
next
  case (2 p prev classes children)
  from "2.prems"(1) consider "e = El p (Element classes children) prev"
    | "e \<in> set (child_elements p 0 None children)"
    by auto
  then show ?case
  proof cases
    case 1
    with "2.prems"(2,3) show ?thesis by simp
  next
    case 2
    then show ?thesis using "2.prems"(3) by (intro "2.IH") simp_all
  qed
next
  case (3 p i prev)
  then show ?case by simp
next
  case (4 p i prev child children)
  let ?next = "case child of Text s \<Rightarrow> prev | Element cs ks \<Rightarrow> Some (El (p @ [i]) child prev)"
  from "4.prems"(1) consider "e \<in> set (subtree_elements (p @ [i]) prev child)"
    | "e \<in> set (child_elements p (Suc i) ?next children)"
    by auto
  then show ?case
  proof cases
    case 1
    have "\<forall>pr. prev = Some pr \<longrightarrow> parentElement pr = parentElement (El (p @ [i]) child prev)"
      using "4.prems"(2) by (simp add: child_parent)
    with 1 show ?thesis using "4.prems"(3) by (intro "4.IH"(1))
  next
    case 2
    have "\<forall>pr. ?next = Some pr \<longrightarrow> parentElement pr = Some p"
      using "4.prems"(2) by (cases child) (auto simp: child_parent)
    with 2 show ?thesis using "4.prems"(3) by (intro "4.IH"(2))
  qed
qed

lemma line_groups_heads:
  "q \<in> set (line_groups nodes) \<Longrightarrow>
     \<exists>e \<in> set nodes. questionElement q = Some e \<and>
       (contains_class e ''query-text-line'' \<longrightarrow> \<not> after_line e)"
proof (induction nodes arbitrary: q rule: length_induct)
  case (1 nodes)
  show ?case
  proof (cases nodes)
    case Nil
    with "1.prems" show ?thesis by simp
  next
    case (Cons e rest)
    have shorter: "length (dropWhile (same_run e) rest) < length nodes" "length rest < length nodes"
      using length_dropWhile_le [of "same_run e" rest] by (simp_all add: Cons)
    have drop: "set (dropWhile (same_run e) rest) \<subseteq> set nodes"
      using set_dropWhileD [of _ "same_run e" rest] by (auto simp: Cons)
    consider (skip) "contains_class e ''query-text-line''" "after_line e" "q \<in> set (line_groups rest)"
      | (head) "\<not> (contains_class e ''query-text-line'' \<and> after_line e)" "questionElement q = Some e"
      | (run) "q \<in> set (line_groups (dropWhile (same_run e) rest))"
      | (other) "q \<in> set (line_groups rest)"
      using "1.prems" unfolding Cons
      by (auto simp: Let_def split: if_splits simp del: join.simps)
    then show ?thesis
    proof cases
      case skip
      with "1.IH" shorter(2) obtain e' where "e' \<in> set rest" "questionElement q = Some e'"
        "contains_class e' ''query-text-line'' \<longrightarrow> \<not> after_line e'"
        by blast
      then show ?thesis by (auto simp: Cons)
    next
      case head
      then show ?thesis by (auto simp: Cons)
    next
      case run
      with "1.IH" shorter(1) obtain e' where "e' \<in> set (dropWhile (same_run e) rest)"
        "questionElement q = Some e'" "contains_class e' ''query-text-line'' \<longrightarrow> \<not> after_line e'"
        by blast
      with drop show ?thesis by blast
    next
      case other
      with "1.IH" shorter(2) obtain e' where "e' \<in> set rest" "questionElement q = Some e'"
        "contains_class e' ''query-text-line'' \<longrightarrow> \<not> after_line e'"
        by blast
      then show ?thesis by (auto simp: Cons)
    qed
  qed
qed

lemma fallback_heads:
  assumes "containers document = []" and "q \<in> set (gemini_getQueries document)"
  shows "\<exists>e. questionElement q = Some e \<and> contains_class e ''query-text-line'' \<and>
     \<not> prev_line (previousElementSibling e)"
proof -
  let ?nodes = "line_handles (subtree_elements [] None document)"
  have "gemini_groups document = line_groups ?nodes"
    using no_containers_nodes [OF assms(1)] by (simp add: gemini_groups_def Let_def)
  with assms(2) have "q \<in> set (line_groups ?nodes)"
    using gemini_filter_subset [of "{}" "gemini_groups document"] by (auto simp: gemini_getQueries_def)
  then obtain e where e: "e \<in> set ?nodes" "questionElement q = Some e"
    "contains_class e ''query-text-line'' \<longrightarrow> \<not> after_line e"
    using line_groups_heads by blast
  from e(1) have line: "contains_class e ''query-text-line''"
    and place: "e \<in> set (subtree_elements [] None document)"
    by simp_all
  have "\<not> prev_line (previousElementSibling e)"
  proof (cases "previousElementSibling e")
    case None
    then show ?thesis by (simp add: prev_line_def)
  next
    case (Some before)
    with place have "parentElement before = parentElement e"
      by (intro sibling_parent(1) [of e "[]" None document]) simp_all
    with e(3) line Some show ?thesis
      by (simp add: after_line_def prev_line_def)
  qed
  with e(2) line show ?thesis by blast
qed

subsection \<open>A page with containers\<close>

lemma container_lines:
  "map node_of (el_querySelectorAll c [''query-text-line'']) = lines_below (node_of c)"
proof -
  have "filter (matches [''query-text-line'']) es = line_handles es" for es
    by (intro filter_cong) (simp_all add: matches_def)
  then show ?thesis
    by (simp add: el_querySelectorAll_def node_of_line_handles map_tl node_of_elements lines_below_def)
qed

lemma container_group_text:
  "map questionText (container_group c) = filter (\<lambda>t. t \<noteq> []) [container_text (node_of c)]"
proof -
  let ?lineNodes = "el_querySelectorAll c [''query-text-line'']"
  have texts: "map (\<lambda>n. textContent (node_of n)) ?lineNodes = map textContent (lines_below (node_of c))"
    using container_lines [of c, symmetric] by (simp add: comp_def)
  have some: "?lineNodes \<noteq> [] \<longleftrightarrow> lines_below (node_of c) \<noteq> []"
    using container_lines [of c] by (metis map_is_Nil_conv)
  show ?thesis
    by (simp add: container_group_def Let_def container_text_def texts some del: join.simps)
qed

lemma container_groups:
  assumes "containers document \<noteq> []"
  shows "map questionText (gemini_groups document) =
     filter (\<lambda>t. t \<noteq> []) (map container_text (containers document))"
proof -
  let ?cs = "querySelectorAll document [''user-message'', ''query'']"
  from assms have "?cs \<noteq> []"
    using containers_handles [of document] by (metis map_is_Nil_conv)
  then have groups: "gemini_groups document = concat (map container_group ?cs)"
    by (simp add: gemini_groups_def Let_def)
  have "map questionText (concat (map container_group cs)) =
      filter (\<lambda>t. t \<noteq> []) (map container_text (map node_of cs))" for cs
    by (induction cs) (simp_all add: container_group_text)
  then show ?thesis
    by (simp only: groups containers_handles)
qed

subsection \<open>Greeting and duplicates\<close>

lemma gemini_filter_texts:
  "map questionText (gemini_filter seen groups) =
     keep_first (filter (\<lambda>t. \<not> startsWith (toLowerCase t) ''hello,'' \<and> toLowerCase t \<notin> seen)
       (map questionText groups))"
proof (induction groups arbitrary: seen)
  case Nil
  show ?case by simp
next
  case (Cons g groups)
  show ?case
  proof (cases "greeting g \<or> lowerText g \<in> seen")
    case True
    then show ?thesis by (auto simp: Let_def Cons.IH)
  next
    case False
    have "filter (\<lambda>u. toLowerCase u \<noteq> lowerText g)
        (filter (\<lambda>t. \<not> startsWith (toLowerCase t) ''hello,'' \<and> toLowerCase t \<notin> seen) ts) =
      filter (\<lambda>t. \<not> startsWith (toLowerCase t) ''hello,'' \<and> toLowerCase t \<notin> insert (lowerText g) seen) ts"
      for ts :: "string list"
      by (induction ts) auto
    with False show ?thesis by (simp add: Let_def Cons.IH)
  qed
qed

text \<open>
  C4, as the code has it. On every page, the queries returned are the groups without
  those whose lower-cased text starts with \<open>hello,\<close> and, of the rest, without those whose
  lower-cased text an earlier one has. On a page with containers there is one group per
  container, in document order: the texts of all the line nodes inside it joined with
  single spaces, or its whole text when it holds no line node, white space collapsed and
  the ends trimmed; a container that gives the empty text gives no group. On a page with
  no container and with no line node inside another, there is one group per run of line
  nodes: the line nodes that are children of one parent and follow one another among the
  line nodes of the page, their texts joined and normalized the same way. On every page
  with no container, a query starts at a line node whose previous element sibling is no
  line node: a line that comes right after a sibling line never starts a query of its own.
\<close>

theorem gemini_merge_and_filter:
  "map questionText (gemini_getQueries document) =
     keep_first (filter (\<lambda>t. \<not> startsWith (toLowerCase t) ''hello,'')
       (map questionText (gemini_groups document))) \<and>
   (containers document \<noteq> [] \<longrightarrow>
      map questionText (gemini_groups document) =
        filter (\<lambda>t. t \<noteq> []) (map container_text (containers document))) \<and>
   (containers document = [] \<and> flat_lines document \<longrightarrow>
      map questionText (gemini_groups document) = merged (page_runs document)) \<and>
   (containers document = [] \<longrightarrow>
      (\<forall>q \<in> set (gemini_getQueries document).
         \<exists>e. questionElement q = Some e \<and> contains_class e ''query-text-line'' \<and>
           \<not> prev_line (previousElementSibling e)))"
proof (intro conjI impI ballI)
  show "map questionText (gemini_getQueries document) =
     keep_first (filter (\<lambda>t. \<not> startsWith (toLowerCase t) ''hello,'')
       (map questionText (gemini_groups document)))"
    by (simp add: gemini_getQueries_def gemini_filter_texts)
next
  assume "containers document \<noteq> []"
  then show "map questionText (gemini_groups document) =
        filter (\<lambda>t. t \<noteq> []) (map container_text (containers document))"
    by (rule container_groups)
next
  assume "containers document = [] \<and> flat_lines document"
  then show "map questionText (gemini_groups document) = merged (page_runs document)"
    by (intro fallback_groups) simp_all
next
  fix q
  assume "containers document = []" and "q \<in> set (gemini_getQueries document)"
  then show "\<exists>e. questionElement q = Some e \<and> contains_class e ''query-text-line'' \<and>
      \<not> prev_line (previousElementSibling e)"
    by (rule fallback_heads)
qed

theorem gemini_merge_and_filter_witness:
  "containers (Element []
     [Element [''turn''] [Element [''query-text-line''] [Text ''a''],
        Element [''query-text-line''] [Text ''b''], Element [''query-text-line''] [Text ''c'']],
      Element [''turn''] [Element [''query-text-line''] [Text ''Hello,  there'']],
      Element [''turn''] [Element [''query-text-line''] [Text ''A B''], Element [''gap''] [Text ''-''],
        Element [''query-text-line''] [Text ''C'']]]) = [] \<and>
   flat_lines (Element []
     [Element [''turn''] [Element [''query-text-line''] [Text ''a''],
        Element [''query-text-line''] [Text ''b''], Element [''query-text-line''] [Text ''c'']],
      Element [''turn''] [Element [''query-text-line''] [Text ''Hello,  there'']],
      Element [''turn''] [Element [''query-text-line''] [Text ''A B''], Element [''gap''] [Text ''-''],
        Element [''query-text-line''] [Text ''C'']]]) \<and>
   map questionText (gemini_groups (Element []
     [Element [''turn''] [Element [''query-text-line''] [Text ''a''],
        Element [''query-text-line''] [Text ''b''], Element [''query-text-line''] [Text ''c'']],
      Element [''turn''] [Element [''query-text-line''] [Text ''Hello,  there'']],
      Element [''turn''] [Element [''query-text-line''] [Text ''A B''], Element [''gap''] [Text ''-''],
        Element [''query-text-line''] [Text ''C'']]])) = [''a b c'', ''Hello, there'', ''A B C''] \<and>
   map questionText (gemini_getQueries (Element []
     [Element [''turn''] [Element [''query-text-line''] [Text ''a''],
        Element [''query-text-line''] [Text ''b''], Element [''query-text-line''] [Text ''c'']],
      Element [''turn''] [Element [''query-text-line''] [Text ''Hello,  there'']],
      Element [''turn''] [Element [''query-text-line''] [Text ''A B''], Element [''gap''] [Text ''-''],
        Element [''query-text-line''] [Text ''C'']]])) = [''a b c''] \<and>
   QObject ''a b c'' (El [0, 0] (Element [''query-text-line''] [Text ''a'']) None) \<in>
     set (gemini_getQueries (Element []
     [Element [''turn''] [Element [''query-text-line''] [Text ''a''],
        Element [''query-text-line''] [Text ''b''], Element [''query-text-line''] [Text ''c'']],
      Element [''turn''] [Element [''query-text-line''] [Text ''Hello,  there'']],
      Element [''turn''] [Element [''query-text-line''] [Text ''A B''], Element [''gap''] [Text ''-''],
        Element [''query-text-line''] [Text ''C'']]])) \<and>
   (\<exists>e. questionElement (QObject ''a b c'' (El [0, 0] (Element [''query-text-line''] [Text ''a'']) None)) =
        Some e \<and>
      contains_class e ''query-text-line'' \<and> \<not> prev_line (previousElementSibling e)) \<and>
   containers (Element []
     [Element [''query''] [Text '' What  is HOL? ''],
      Element [''user-message'']
        [Element [] [Element [''query-text-line''] [Text ''x''], Element [''query-text-line''] [Text ''y'']],
         Element [] [Element [''query-text-line''] [Text ''z'']]]]) \<noteq> [] \<and>
   map questionText (gemini_getQueries (Element []
     [Element [''query''] [Text '' What  is HOL? ''],
      Element [''user-message'']
        [Element [] [Element [''query-text-line''] [Text ''x''], Element [''query-text-line''] [Text ''y'']],
         Element [] [Element [''query-text-line''] [Text ''z'']]]])) = [''What is HOL?'', ''x y z'']"
proof -
  let ?lines = "Element []
     [Element [''turn''] [Element [''query-text-line''] [Text ''a''],
        Element [''query-text-line''] [Text ''b''], Element [''query-text-line''] [Text ''c'']],
      Element [''turn''] [Element [''query-text-line''] [Text ''Hello,  there'']],
      Element [''turn''] [Element [''query-text-line''] [Text ''A B''], Element [''gap''] [Text ''-''],
        Element [''query-text-line''] [Text ''C'']]]"
  let ?boxes = "Element []
     [Element [''query''] [Text '' What  is HOL? ''],
      Element [''user-message'']
        [Element [] [Element [''query-text-line''] [Text ''x''], Element [''query-text-line''] [Text ''y'']],
         Element [] [Element [''query-text-line''] [Text ''z'']]]]"
  have none: "containers ?lines = []" by code_simp
  have flat: "flat_lines ?lines" by code_simp
  have some: "containers ?boxes \<noteq> []" by code_simp
  note law = gemini_merge_and_filter [of ?lines]
  from law none flat have "map questionText (gemini_groups ?lines) = merged (page_runs ?lines)"
    by blast
  moreover have "merged (page_runs ?lines) = [''a b c'', ''Hello, there'', ''A B C'']"
    by code_simp
  ultimately have groups: "map questionText (gemini_groups ?lines) = [''a b c'', ''Hello, there'', ''A B C'']"
    by (rule trans)
  from law have "map questionText (gemini_getQueries ?lines) =
      keep_first (filter (\<lambda>t. \<not> startsWith (toLowerCase t) ''hello,'')
        (map questionText (gemini_groups ?lines)))"
    by (rule conjunct1)
  moreover have "keep_first (filter (\<lambda>t. \<not> startsWith (toLowerCase t) ''hello,'')
      [''a b c'', ''Hello, there'', ''A B C'']) = [''a b c'']"
    by code_simp
  ultimately have queries: "map questionText (gemini_getQueries ?lines) = [''a b c'']"
    by (simp only: groups)
  have member: "QObject ''a b c'' (El [0, 0] (Element [''query-text-line''] [Text ''a'']) None) \<in>
      set (gemini_getQueries ?lines)"
    by code_simp
  from law none have "\<forall>q \<in> set (gemini_getQueries ?lines).
      \<exists>e. questionElement q = Some e \<and> contains_class e ''query-text-line'' \<and>
        \<not> prev_line (previousElementSibling e)"
    by blast
  then have start: "\<exists>e. questionElement (QObject ''a b c''
        (El [0, 0] (Element [''query-text-line''] [Text ''a'']) None)) = Some e \<and>
      contains_class e ''query-text-line'' \<and> \<not> prev_line (previousElementSibling e)"
    using member by (rule bspec)
  note law2 = gemini_merge_and_filter [of ?boxes]
  from law2 some have "map questionText (gemini_groups ?boxes) =
      filter (\<lambda>t. t \<noteq> []) (map container_text (containers ?boxes))"
    by blast
  moreover have "filter (\<lambda>t. t \<noteq> []) (map container_text (containers ?boxes)) =
      [''What is HOL?'', ''x y z'']"
    by code_simp
  ultimately have groups2: "map questionText (gemini_groups ?boxes) = [''What is HOL?'', ''x y z'']"
    by (rule trans)
  from law2 have "map questionText (gemini_getQueries ?boxes) =
      keep_first (filter (\<lambda>t. \<not> startsWith (toLowerCase t) ''hello,'')
        (map questionText (gemini_groups ?boxes)))"
    by (rule conjunct1)
  moreover have "keep_first (filter (\<lambda>t. \<not> startsWith (toLowerCase t) ''hello,'')
      [''What is HOL?'', ''x y z'']) = [''What is HOL?'', ''x y z'']"
    by code_simp
  ultimately have queries2: "map questionText (gemini_getQueries ?boxes) = [''What is HOL?'', ''x y z'']"
    by (simp only: groups2)
  from none flat groups queries member start some queries2 show ?thesis
    by (intro conjI)
qed

text \<open>
  The claim as it is worded, sibling line nodes under one parent merged into one query,
  fails in two ways. In a page without containers, a line node that holds a line node
  cuts the run of its parent: the second line of the parent, \<open>two\<close>, is in no query at
  all. In a page with containers, all the lines of a container make one query, whether
  they have the same parent or not: \<open>x\<close>, \<open>y\<close> under one parent and \<open>z\<close> under another
  give \<open>x y z\<close>.
\<close>

theorem gemini_merge_counterexample:
  "map questionText (gemini_getQueries (Element []
     [Element [''turn'']
        [Element [''query-text-line''] [Text ''one '', Element [''query-text-line''] [Text ''inner'']],
         Element [''query-text-line''] [Text ''two'']]])) = [''one inner'', ''inner''] \<and>
   map questionText (gemini_getQueries (Element []
     [Element [''user-message'']
        [Element [] [Element [''query-text-line''] [Text ''x''], Element [''query-text-line''] [Text ''y'']],
         Element [] [Element [''query-text-line''] [Text ''z'']]]])) = [''x y z'']"
  by code_simp

end
